theory Spec2Isabelle
  imports Main "HOL-Library.Sublist"
begin

section \<open>The input/output module of kernel-hardening-checker\<close>

text \<open>
  This theory embeds the module \<^verbatim>\<open>kernel_hardening_checker/__init__.py\<close>: the detectors
  of the microarchitecture, kernel version and compiler, the three parsers, the report
  printer \<^verbatim>\<open>print_checklist\<close> and the driver \<^verbatim>\<open>perform_checking\<close>.

  Text is a \<^typ>\<open>string\<close>; a character is read as the code point of the same number
  (U+0000 to U+00FF). Text with code points beyond U+00FF is outside the model.
  A file is its decoded text, as the text stream of \<^verbatim>\<open>_open\<close> delivers it, together
  with the size that \<^verbatim>\<open>os.stat\<close> reports for it.
\<close>

subsection \<open>Exceptions and effects\<close>

datatype exit_arg = Code int | Msg string

datatype exn =
    SystemExit exit_arg
  | AssertionError string
  | IndexError
  | ValueError

text \<open>
  A function that prints returns what it printed, one entry per \<^verbatim>\<open>print\<close> call, in
  order, together with its result or the exception that ended it. What was printed
  before an exception stays printed.
\<close>

type_synonym ('e, 'a) run = "'e list \<times> (exn + 'a)"

definition ret :: "'a \<Rightarrow> ('e, 'a) run" where
  "ret a = ([], Inr a)"

definition raise :: "exn \<Rightarrow> ('e, 'a) run" where
  "raise x = ([], Inl x)"

definition emit :: "'e list \<Rightarrow> ('e, unit) run" where
  "emit es = (es, Inr ())"

definition bind :: "('e, 'a) run \<Rightarrow> ('a \<Rightarrow> ('e, 'b) run) \<Rightarrow> ('e, 'b) run" where
  "bind r k =
     (case r of
        (out, Inl x) \<Rightarrow> (out, Inl x)
      | (out, Inr a) \<Rightarrow> (case k a of (out', r') \<Rightarrow> (out @ out', r')))"

definition lift_out :: "('d \<Rightarrow> 'e) \<Rightarrow> ('d, 'a) run \<Rightarrow> ('e, 'a) run" where
  "lift_out f r = (map f (fst r), snd r)"

subsection \<open>Python text operations\<close>

type_synonym StrOrNone = "string option"

abbreviation newline :: char where
  "newline \<equiv> CHR 0x0A"

text \<open>\<^verbatim>\<open>str.isspace\<close> on one character, for the code points below 256.\<close>

definition isspace :: "char \<Rightarrow> bool" where
  "isspace c =
     (let n = (of_char c :: nat)
      in (9 \<le> n \<and> n \<le> 13) \<or> (28 \<le> n \<and> n \<le> 32) \<or> n = 133 \<or> n = 160)"

definition strip :: "string \<Rightarrow> string" where
  "strip s = rev (dropWhile isspace (rev (dropWhile isspace s)))"

definition startswith :: "string \<Rightarrow> string \<Rightarrow> bool" where
  "startswith s p = prefix p s"

text \<open>Truth value of a \<^verbatim>\<open>StrOrNone\<close>: \<^verbatim>\<open>None\<close> and the empty string are false.\<close>

definition truthy :: "StrOrNone \<Rightarrow> bool" where
  "truthy v = (case v of None \<Rightarrow> False | Some s \<Rightarrow> s \<noteq> [])"

text \<open>\<^verbatim>\<open>f.readlines()\<close>: the lines of the text, each with its line end.\<close>

fun readlines_aux :: "string \<Rightarrow> string \<Rightarrow> string list" where
  "readlines_aux cur [] = (if cur = [] then [] else [cur])"
| "readlines_aux cur (c # cs) =
     (if c = newline then (cur @ [c]) # readlines_aux [] cs
      else readlines_aux (cur @ [c]) cs)"

definition readlines :: "string \<Rightarrow> string list" where
  "readlines s = readlines_aux [] s"

text \<open>\<^verbatim>\<open>s.split()\<close>: the maximal runs of characters that are not whitespace.\<close>

fun split_ws_aux :: "string \<Rightarrow> string \<Rightarrow> string list" where
  "split_ws_aux cur [] = (if cur = [] then [] else [cur])"
| "split_ws_aux cur (c # cs) =
     (if isspace c then (if cur = [] then split_ws_aux [] cs else cur # split_ws_aux [] cs)
      else split_ws_aux (cur @ [c]) cs)"

definition split_ws :: "string \<Rightarrow> string list" where
  "split_ws s = split_ws_aux [] s"

text \<open>\<^verbatim>\<open>s.split(sep, 1)\<close> for a separator of one character: one or two parts.\<close>

definition split1 :: "char \<Rightarrow> string \<Rightarrow> string list" where
  "split1 sep s =
     (if sep \<in> set s
      then [takeWhile (\<lambda>c. c \<noteq> sep) s, tl (dropWhile (\<lambda>c. c \<noteq> sep) s)]
      else [s])"

text \<open>\<^verbatim>\<open>s.split(sep)\<close> for a separator of one character: empty parts are kept.\<close>

fun split_on_aux :: "char \<Rightarrow> string \<Rightarrow> string \<Rightarrow> string list" where
  "split_on_aux sep cur [] = [cur]"
| "split_on_aux sep cur (c # cs) =
     (if c = sep then cur # split_on_aux sep [] cs else split_on_aux sep (cur @ [c]) cs)"

definition split_on :: "char \<Rightarrow> string \<Rightarrow> string list" where
  "split_on sep s = split_on_aux sep [] s"

subsection \<open>Regular expressions\<close>

text \<open>
  A pattern is written with its continuation: \<open>re_lit w k\<close> matches \<open>w\<close> and then what
  \<open>k\<close> matches. A matcher answers whether the pattern matches at the start of the text
  (\<^verbatim>\<open>Pattern.match\<close>); as in Python, the match need not reach the end of the text.
\<close>

type_synonym matcher = "string \<Rightarrow> bool"

definition re_end :: matcher where
  "re_end s = True"

definition re_lit :: "string \<Rightarrow> matcher \<Rightarrow> matcher" where
  "re_lit w k s = (prefix w s \<and> k (drop (length w) s))"

definition re_plus :: "(char \<Rightarrow> bool) \<Rightarrow> matcher \<Rightarrow> matcher" where
  "re_plus P k s = list_ex (\<lambda>n. list_all P (take n s) \<and> k (drop n s)) [1..<Suc (length s)]"

definition re_star :: "(char \<Rightarrow> bool) \<Rightarrow> matcher \<Rightarrow> matcher" where
  "re_star P k s = list_ex (\<lambda>n. list_all P (take n s) \<and> k (drop n s)) [0..<Suc (length s)]"

definition re_opt :: "string \<Rightarrow> matcher \<Rightarrow> matcher" where
  "re_opt w k s = (re_lit w k s \<or> k s)"

text \<open>\<^verbatim>\<open>$\<close>: the end of the text, or just before a newline that ends the text.\<close>

definition re_dollar :: "matcher \<Rightarrow> matcher" where
  "re_dollar k s = ((s = [] \<or> s = [newline]) \<and> k s)"

text \<open>\<^verbatim>\<open>.\<close>: any character but a newline.\<close>

definition re_dot :: "char \<Rightarrow> bool" where
  "re_dot c = (c \<noteq> newline)"

definition in_range :: "char \<Rightarrow> char \<Rightarrow> char \<Rightarrow> bool" where
  "in_range lo hi c = ((of_char lo :: nat) \<le> of_char c \<and> (of_char c :: nat) \<le> of_char hi)"

subsection \<open>Files\<close>

record text_file =
  st_size :: nat
  contents :: string

type_synonym filesystem = "string \<Rightarrow> text_file option"

text \<open>\<^verbatim>\<open>_open\<close>: a file that does not exist ends the program.\<close>

definition open_file :: "filesystem \<Rightarrow> string \<Rightarrow> exn + text_file" where
  "open_file fs fname =
     (case fs fname of
        None \<Rightarrow> Inl (SystemExit (Msg (''[!] ERROR: unable to open '' @ fname @ '', are you sure it exists?'')))
      | Some f \<Rightarrow> Inr f)"

subsection \<open>The sysctl parser\<close>

text \<open>The pattern \<^verbatim>\<open>[a-zA-Z0-9/\._-]+ ?=.*$\<close>.\<close>

definition sysctl_char :: "char \<Rightarrow> bool" where
  "sysctl_char c =
     (in_range CHR ''a'' CHR ''z'' c \<or> in_range CHR ''A'' CHR ''Z'' c \<or> in_range CHR ''0'' CHR ''9'' c
      \<or> c = CHR ''/'' \<or> c = CHR ''.'' \<or> c = CHR ''_'' \<or> c = CHR ''-'')"

definition sysctl_pattern :: matcher where
  "sysctl_pattern =
     re_plus sysctl_char (re_opt '' '' (re_lit ''='' (re_star re_dot (re_dollar re_end))))"

text \<open>The loop over the lines of \<^verbatim>\<open>parse_sysctl_file\<close>; it prints nothing.\<close>

fun sysctl_lines :: "(string \<rightharpoonup> string) \<Rightarrow> string list \<Rightarrow> exn + (string \<rightharpoonup> string)" where
  "sysctl_lines parsed_options [] = Inr parsed_options"
| "sysctl_lines parsed_options (l # ls) =
     (let line = strip l in
      if line = [] \<or> startswith line ''#'' then sysctl_lines parsed_options ls
      else if \<not> sysctl_pattern line
        then Inl (SystemExit (Msg (''[!] ERROR: unexpected line in sysctl file: '' @ [CHR 0x22] @ line @ [CHR 0x22])))
      else (case split1 CHR ''='' line of
              [option, value] \<Rightarrow> sysctl_lines (parsed_options(strip option \<mapsto> strip value)) ls
            | _ \<Rightarrow> Inl ValueError))"

definition sysctl_warnings :: "StrOrNone \<Rightarrow> (string \<rightharpoonup> string) \<Rightarrow> string \<Rightarrow> string list" where
  "sysctl_warnings mode parsed_options fname =
     (if parsed_options ''kernel.printk'' = None \<and> mode \<noteq> Some ''json''
      then [''[!] WARNING: ancient sysctl options are not found in '' @ fname @ '', please use the output of `sudo sysctl -a`'' @ [newline]]
      else [])
     @
     (if parsed_options ''kernel.cad_pid'' = None \<and> mode \<noteq> Some ''json''
      then [''[!] WARNING: sysctl options available for root are not found in '' @ fname @ '', please use the output of `sudo sysctl -a`'' @ [newline]]
      else [])"

definition parse_sysctl_file ::
  "filesystem \<Rightarrow> StrOrNone \<Rightarrow> (string \<rightharpoonup> string) \<Rightarrow> string \<Rightarrow> (string, string \<rightharpoonup> string) run" where
  "parse_sysctl_file fs mode parsed_options fname =
     (case open_file fs fname of
        Inl e \<Rightarrow> raise e
      | Inr f \<Rightarrow>
          if st_size f = 0
          then raise (SystemExit (Msg (''[!] ERROR: empty sysctl file '' @ [CHR 0x22] @ fname @ [CHR 0x22])))
          else (case sysctl_lines parsed_options (readlines (contents f)) of
                  Inl e \<Rightarrow> raise e
                | Inr m \<Rightarrow> (sysctl_warnings mode m fname, Inr m)))"

text \<open>
  The claim's words: a line counts when, stripped, it is not empty and not a comment; it
  is well-formed when the pattern matches it; its option is the stripped text before the
  first \<^verbatim>\<open>=\<close> and its value the stripped text after it.
\<close>

definition sysctl_counts :: "string \<Rightarrow> bool" where
  "sysctl_counts l = (strip l \<noteq> [] \<and> \<not> startswith (strip l) ''#'')"

definition sysctl_entry :: "string \<Rightarrow> string \<times> string" where
  "sysctl_entry l =
     (strip (takeWhile (\<lambda>c. c \<noteq> CHR ''='') (strip l)),
      strip (tl (dropWhile (\<lambda>c. c \<noteq> CHR ''='') (strip l))))"

definition sysctl_entries :: "string list \<Rightarrow> (string \<times> string) list" where
  "sysctl_entries ls = map sysctl_entry (filter sysctl_counts ls)"

subsection \<open>The cmdline parser\<close>

text \<open>
  \<^verbatim>\<open>normalize_cmdline_options\<close> belongs to the module \<^verbatim>\<open>checks\<close>; it is a parameter
  here. The parser asserts that it does not return \<^verbatim>\<open>None\<close>.
\<close>

type_synonym normalizer = "string \<Rightarrow> string \<Rightarrow> StrOrNone"

text \<open>Name and value of one token: \<^verbatim>\<open>opt.split('=', 1)\<close>, or the token and \<^verbatim>\<open>''\<close>.\<close>

definition cmdline_name_value :: "string \<Rightarrow> exn + string \<times> string" where
  "cmdline_name_value opt =
     (if CHR ''='' \<in> set opt
      then (case split1 CHR ''='' opt of [name, value] \<Rightarrow> Inr (name, value) | _ \<Rightarrow> Inl ValueError)
      else Inr (opt, ''''))"

fun cmdline_opts ::
  "normalizer \<Rightarrow> StrOrNone \<Rightarrow> (string \<rightharpoonup> string) \<Rightarrow> string list \<Rightarrow> (string, string \<rightharpoonup> string) run" where
  "cmdline_opts normalize_cmdline_options mode parsed_options [] = ret parsed_options"
| "cmdline_opts normalize_cmdline_options mode parsed_options (opt # opts) =
     (case cmdline_name_value opt of
        Inl e \<Rightarrow> raise e
      | Inr (name, value) \<Rightarrow>
          bind (emit (if parsed_options name \<noteq> None \<and> mode \<noteq> Some ''json''
                      then [''[!] WARNING: cmdline option '' @ [CHR 0x22] @ name @ [CHR 0x22] @ '' is found multiple times'' @ [newline]]
                      else []))
            (\<lambda>_. case normalize_cmdline_options name value of
                    None \<Rightarrow> raise (AssertionError (''unexpected None value for '' @ name))
                  | Some v \<Rightarrow> cmdline_opts normalize_cmdline_options mode (parsed_options(name \<mapsto> v)) opts))"

definition parse_cmdline_file ::
  "normalizer \<Rightarrow> filesystem \<Rightarrow> StrOrNone \<Rightarrow> (string \<rightharpoonup> string) \<Rightarrow> string
     \<Rightarrow> (string, string \<rightharpoonup> string) run" where
  "parse_cmdline_file normalize_cmdline_options fs mode parsed_options fname =
     (case open_file fs fname of
        Inl e \<Rightarrow> raise e
      | Inr f \<Rightarrow>
          (case readlines (contents f) of
             [] \<Rightarrow> raise (SystemExit (Msg (''[!] ERROR: empty cmdline file '' @ [CHR 0x22] @ fname @ [CHR 0x22])))
           | [line] \<Rightarrow> cmdline_opts normalize_cmdline_options mode parsed_options (split_ws line)
           | _ \<Rightarrow> raise (SystemExit (Msg (''[!] ERROR: more than one line in '' @ [CHR 0x22] @ fname @ [CHR 0x22])))))"



subsection \<open>The Kconfig parser\<close>

text \<open>
  The patterns \<^verbatim>\<open>CONFIG_[a-zA-Z0-9_]+=.*$\<close> and \<^verbatim>\<open># CONFIG_[a-zA-Z0-9_]+ is not set$\<close>.
\<close>

definition kconfig_char :: "char \<Rightarrow> bool" where
  "kconfig_char c =
     (in_range CHR ''a'' CHR ''z'' c \<or> in_range CHR ''A'' CHR ''Z'' c \<or> in_range CHR ''0'' CHR ''9'' c
      \<or> c = CHR ''_'')"

definition opt_is_on :: matcher where
  "opt_is_on = re_lit ''CONFIG_'' (re_plus kconfig_char (re_lit ''='' (re_star re_dot (re_dollar re_end))))"

definition opt_is_off :: matcher where
  "opt_is_off = re_lit ''# CONFIG_'' (re_plus kconfig_char (re_lit '' is not set'' (re_dollar re_end)))"

text \<open>
  The first part of the loop body: from the stripped line to \<^verbatim>\<open>option\<close> and
  \<^verbatim>\<open>value\<close>, both \<^verbatim>\<open>None\<close> for a blank line or a comment.
\<close>

definition kconfig_line :: "string \<Rightarrow> (string, StrOrNone \<times> StrOrNone) run" where
  "kconfig_line line =
     (if opt_is_on line then
        (case split1 CHR ''='' line of
           [option, value] \<Rightarrow>
             if value = ''is not set''
             then raise (SystemExit (Msg (''[!] ERROR: bad enabled Kconfig option '' @ [CHR 0x22] @ line @ [CHR 0x22])))
             else bind (emit (if value = ''''
                              then [''[!] WARNING: found strange Kconfig option '' @ option @ '' with empty value'' @ [newline]]
                              else []))
                    (\<lambda>_. ret (Some option, Some value))
         | _ \<Rightarrow> raise ValueError)
      else if opt_is_off line then
        (case split1 CHR '' '' (drop 2 line) of
           [option, value] \<Rightarrow>
             if value \<noteq> ''is not set''
             then raise (AssertionError (''unexpected value of disabled Kconfig option '' @ [CHR 0x22] @ line @ [CHR 0x22]))
             else ret (Some option, Some value)
         | _ \<Rightarrow> raise ValueError)
      else if line \<noteq> '''' \<and> \<not> startswith line ''#''
        then raise (SystemExit (Msg (''[!] ERROR: unexpected line in Kconfig file: '' @ [CHR 0x22] @ line @ [CHR 0x22])))
      else ret (None, None))"

text \<open>The second part: the test for a repeated option, and the recording.\<close>

fun kconfig_lines :: "(string \<rightharpoonup> string) \<Rightarrow> string list \<Rightarrow> (string, string \<rightharpoonup> string) run" where
  "kconfig_lines parsed_options [] = ret parsed_options"
| "kconfig_lines parsed_options (l # ls) =
     bind (kconfig_line (strip l))
       (\<lambda>(option, value).
          if (case option of None \<Rightarrow> False | Some opt \<Rightarrow> parsed_options opt \<noteq> None)
          then raise (SystemExit (Msg (''[!] ERROR: Kconfig option '' @ [CHR 0x22] @ strip l @ [CHR 0x22] @ '' is found multiple times'')))
          else if truthy option then
            (case value of
               None \<Rightarrow> raise (AssertionError (''unexpected None value for '' @ the option))
             | Some v \<Rightarrow> kconfig_lines (parsed_options(the option \<mapsto> v)) ls)
          else kconfig_lines parsed_options ls)"

definition parse_kconfig_file ::
  "filesystem \<Rightarrow> StrOrNone \<Rightarrow> (string \<rightharpoonup> string) \<Rightarrow> string \<Rightarrow> (string, string \<rightharpoonup> string) run" where
  "parse_kconfig_file fs mode parsed_options fname =
     (case open_file fs fname of
        Inl e \<Rightarrow> raise e
      | Inr f \<Rightarrow> kconfig_lines parsed_options (readlines (contents f)))"

text \<open>
  The claim's words. A stripped line is malformed when it is not empty, does not start
  with \<^verbatim>\<open>#\<close> and matches neither pattern; it is a bad enabled option when it matches
  the enabled pattern and the text after its first \<^verbatim>\<open>=\<close> is \<^verbatim>\<open>is not set\<close>. The name of
  an option line is the text before the first \<^verbatim>\<open>=\<close> of an enabled line, and the text
  between \<^verbatim>\<open># \<close> and the next space of a disabled line.
\<close>

definition kconfig_malformed :: "string \<Rightarrow> bool" where
  "kconfig_malformed line =
     (line \<noteq> '''' \<and> \<not> startswith line ''#'' \<and> \<not> opt_is_on line \<and> \<not> opt_is_off line)"

definition kconfig_bad_enabled :: "string \<Rightarrow> bool" where
  "kconfig_bad_enabled line =
     (opt_is_on line \<and> tl (dropWhile (\<lambda>c. c \<noteq> CHR ''='') line) = ''is not set'')"

definition kconfig_name :: "string \<Rightarrow> string option" where
  "kconfig_name line =
     (if opt_is_on line then Some (takeWhile (\<lambda>c. c \<noteq> CHR ''='') line)
      else if opt_is_off line then Some (takeWhile (\<lambda>c. c \<noteq> CHR '' '') (drop 2 line))
      else None)"

definition kconfig_names :: "string list \<Rightarrow> string list" where
  "kconfig_names ls = List.map_filter (\<lambda>l. kconfig_name (strip l)) ls"


text \<open>The claim's words: the inputs that the Kconfig parser rejects.\<close>

definition kconfig_rejected :: "(string \<rightharpoonup> string) \<Rightarrow> string list \<Rightarrow> bool" where
  "kconfig_rejected parsed_options ls =
     ((\<exists>l \<in> set ls. kconfig_malformed (strip l))
      \<or> (\<exists>l \<in> set ls. kconfig_bad_enabled (strip l))
      \<or> \<not> distinct (kconfig_names ls)
      \<or> (\<exists>n \<in> set (kconfig_names ls). parsed_options n \<noteq> None))"

definition kconfig_outcome :: "(string \<rightharpoonup> string) \<Rightarrow> string list \<Rightarrow> bool" where
  "kconfig_outcome parsed_options ls =
     (if kconfig_rejected parsed_options ls
      then \<exists>msg. snd (kconfig_lines parsed_options ls) = Inl (SystemExit (Msg msg))
      else \<exists>m. snd (kconfig_lines parsed_options ls) = Inr m)"


subsection \<open>Detecting the microarchitecture in the Kconfig file\<close>

definition SUPPORTED_ARCHS :: "string list" where
  "SUPPORTED_ARCHS = [''X86_64'', ''X86_32'', ''ARM64'', ''ARM'']"

text \<open>
  A pattern with one group returns the text of the group. \<open>re_plus_group\<close> is a greedy
  \<^verbatim>\<open>(...+)\<close>: the longest run for which the rest of the pattern matches.
  \<open>re_search\<close> is \<^verbatim>\<open>re.search\<close>: the match at the leftmost position that has one.
\<close>

definition re_plus_group :: "(char \<Rightarrow> bool) \<Rightarrow> matcher \<Rightarrow> string \<Rightarrow> string option" where
  "re_plus_group P k s =
     map_option (\<lambda>n. take n s)
       (find (\<lambda>n. list_all P (take n s) \<and> k (drop n s)) (rev [1..<Suc (length s)]))"

fun re_search :: "(string \<Rightarrow> 'a option) \<Rightarrow> string \<Rightarrow> 'a option" where
  "re_search p [] = p []"
| "re_search p (c # cs) = (case p (c # cs) of Some g \<Rightarrow> Some g | None \<Rightarrow> re_search p cs)"

text \<open>The pattern \<^verbatim>\<open>CONFIG_([A-Z0-9_]+)=y$\<close> at the start of a text.\<close>

definition arch_char :: "char \<Rightarrow> bool" where
  "arch_char c = (in_range CHR ''A'' CHR ''Z'' c \<or> in_range CHR ''0'' CHR ''9'' c \<or> c = CHR ''_'')"

definition arch_pattern :: "string \<Rightarrow> string option" where
  "arch_pattern s =
     (if prefix ''CONFIG_'' s
      then re_plus_group arch_char (re_lit ''=y'' (re_dollar re_end)) (drop (length ''CONFIG_'') s)
      else None)"

fun arch_lines :: "StrOrNone \<Rightarrow> string list \<Rightarrow> StrOrNone \<times> string" where
  "arch_lines arch [] =
     (if arch = None then (None, ''failed to detect microarchitecture in kconfig'')
      else (arch, ''OK''))"
| "arch_lines arch (line # ls) =
     (case re_search arch_pattern line of
        None \<Rightarrow> arch_lines arch ls
      | Some option \<Rightarrow>
          if option \<notin> set SUPPORTED_ARCHS then arch_lines arch ls
          else if arch = None then arch_lines (Some option) ls
          else (None, ''detected more than one microarchitecture in kconfig''))"

definition detect_arch_kconfig :: "filesystem \<Rightarrow> string \<Rightarrow> exn + StrOrNone \<times> string" where
  "detect_arch_kconfig fs fname =
     (case open_file fs fname of
        Inl e \<Rightarrow> Inl e
      | Inr f \<Rightarrow> Inr (arch_lines None (readlines (contents f))))"

text \<open>
  The claim's words: a line names an architecture when the pattern, searched in the
  line, captures one of the four supported names; \<open>arch_hits\<close> lists these names line by
  line, and \<open>archs_appearing\<close> is the set of the supported options that appear.
\<close>

definition arch_of_line :: "string \<Rightarrow> string option" where
  "arch_of_line line =
     (case re_search arch_pattern line of
        None \<Rightarrow> None
      | Some option \<Rightarrow> if option \<in> set SUPPORTED_ARCHS then Some option else None)"

definition arch_hits :: "string list \<Rightarrow> string list" where
  "arch_hits ls = List.map_filter arch_of_line ls"

definition archs_appearing :: "string list \<Rightarrow> string set" where
  "archs_appearing ls = set (arch_hits ls)"

subsection \<open>Detecting the microarchitecture in the sysctl file\<close>

text \<open>
  The patterns \<^verbatim>\<open>^aarch64|armv8\<close>, \<^verbatim>\<open>^armv[3-7]\<close>, \<^verbatim>\<open>^i[3-6]?86\<close> and \<^verbatim>\<open>^x86_64\<close>, used
  with \<^verbatim>\<open>re.search\<close>: only the second alternative of the first one may match after the
  start of the text.
\<close>

definition re_one :: "(char \<Rightarrow> bool) \<Rightarrow> matcher \<Rightarrow> matcher" where
  "re_one P k s = (case s of [] \<Rightarrow> False | c # cs \<Rightarrow> P c \<and> k cs)"

definition re_find :: "matcher \<Rightarrow> matcher" where
  "re_find k s = list_ex (\<lambda>n. k (drop n s)) [0..<Suc (length s)]"

definition arch_mapping :: "(string \<times> matcher) list" where
  "arch_mapping =
     [(''ARM64'', \<lambda>v. re_lit ''aarch64'' re_end v \<or> re_find (re_lit ''armv8'' re_end) v),
      (''ARM'', re_lit ''armv'' (re_one (in_range CHR ''3'' CHR ''7'') re_end)),
      (''X86_32'', re_lit ''i'' (\<lambda>s. re_one (in_range CHR ''3'' CHR ''6'') (re_lit ''86'' re_end) s
                                   \<or> re_lit ''86'' re_end s)),
      (''X86_64'', re_lit ''x86_64'' re_end)]"

fun arch_of_value :: "(string \<times> matcher) list \<Rightarrow> string \<Rightarrow> exn + StrOrNone \<times> string" where
  "arch_of_value [] value = Inr (None, value @ '' is an unsupported arch'')"
| "arch_of_value ((arch, pattern) # rest) value =
     (if arch \<notin> set SUPPORTED_ARCHS then Inl (AssertionError ''invalid arch mapping in sysctl'')
      else if pattern value then Inr (Some arch, value)
      else arch_of_value rest value)"

fun arch_sysctl_lines :: "string list \<Rightarrow> exn + StrOrNone \<times> string" where
  "arch_sysctl_lines [] = Inr (None, ''failed to detect microarchitecture in sysctl'')"
| "arch_sysctl_lines (line # ls) =
     (if startswith line ''kernel.arch''
      then (case split1 CHR ''='' line of
              [_, v] \<Rightarrow> arch_of_value arch_mapping (strip v)
            | _ \<Rightarrow> Inl IndexError)
      else arch_sysctl_lines ls)"

definition detect_arch_sysctl :: "filesystem \<Rightarrow> string \<Rightarrow> exn + StrOrNone \<times> string" where
  "detect_arch_sysctl fs fname =
     (case open_file fs fname of
        Inl e \<Rightarrow> Inl e
      | Inr f \<Rightarrow> arch_sysctl_lines (readlines (contents f)))"

subsection \<open>Detecting the kernel version\<close>

text \<open>The pattern \<^verbatim>\<open>^# Linux/.+ Kernel Configuration$|^Linux version .+\<close>.\<close>

definition ver_pattern :: matcher where
  "ver_pattern s =
     (re_lit ''# Linux/'' (re_plus re_dot (re_lit '' Kernel Configuration'' (re_dollar re_end))) s
      \<or> re_lit ''Linux version '' (re_plus re_dot re_end) s)"

definition isdecimal :: "string \<Rightarrow> bool" where
  "isdecimal s = (s \<noteq> [] \<and> list_all (in_range CHR ''0'' CHR ''9'') s)"

text \<open>\<^verbatim>\<open>int\<close> on a text of decimal digits.\<close>

definition int_of_str :: "string \<Rightarrow> int" where
  "int_of_str s = foldl (\<lambda>a c. 10 * a + (int (of_char c) - 48)) 0 s"

type_synonym TupleOrNone = "int list option"

text \<open>The body of the loop for a line that the pattern matches.\<close>

definition version_of_line :: "string \<Rightarrow> exn + TupleOrNone \<times> string" where
  "version_of_line l =
     (let line = strip l; parts = split_ws line in
      if length parts \<le> 2 then Inl IndexError
      else
        let ver_str = hd (split1 CHR ''-'' (parts ! 2));
            ver_numbers = split_on CHR ''.'' ver_str
        in if length ver_numbers \<ge> 3 \<and> list_all isdecimal ver_numbers
           then Inr (Some (map int_of_str ver_numbers), ''OK'')
           else Inr (None, ''failed to parse the version '' @ [CHR 0x22] @ parts ! 2 @ [CHR 0x22]))"

fun version_lines :: "string list \<Rightarrow> exn + TupleOrNone \<times> string" where
  "version_lines [] = Inr (None, ''no kernel version detected'')"
| "version_lines (l # ls) = (if ver_pattern l then version_of_line l else version_lines ls)"

definition detect_kernel_version :: "filesystem \<Rightarrow> string \<Rightarrow> exn + TupleOrNone \<times> string" where
  "detect_kernel_version fs fname =
     (case open_file fs fname of
        Inl e \<Rightarrow> Inl e
      | Inr f \<Rightarrow> version_lines (readlines (contents f)))"

text \<open>
  The claim's words: the version field of a line is its third whitespace-separated
  field, cut at the first \<^verbatim>\<open>-\<close>; it parses when it splits at \<^verbatim>\<open>.\<close> into at least three
  texts of decimal digits. A line gives a version when the pattern matches it, it has a
  third field, and that field parses.
\<close>

definition version_field :: "string \<Rightarrow> string" where
  "version_field l = split_ws (strip l) ! 2"

definition version_numbers :: "string \<Rightarrow> string list" where
  "version_numbers l = split_on CHR ''.'' (takeWhile (\<lambda>c. c \<noteq> CHR ''-'') (version_field l))"

definition version_parses :: "string \<Rightarrow> bool" where
  "version_parses l = (length (version_numbers l) \<ge> 3 \<and> list_all isdecimal (version_numbers l))"

definition gives_version :: "string \<Rightarrow> bool" where
  "gives_version l = (ver_pattern l \<and> length (split_ws (strip l)) \<ge> 3 \<and> version_parses l)"

subsection \<open>Detecting the compiler\<close>

text \<open>The slices \<^verbatim>\<open>line[19:-1]\<close> and \<^verbatim>\<open>line[21:-1]\<close> drop the last character.\<close>

fun compiler_lines :: "StrOrNone \<Rightarrow> StrOrNone \<Rightarrow> string list \<Rightarrow> StrOrNone \<times> StrOrNone" where
  "compiler_lines gcc_version clang_version [] = (gcc_version, clang_version)"
| "compiler_lines gcc_version clang_version (line # ls) =
     (let gcc_version' = (if startswith line ''CONFIG_GCC_VERSION='' then Some (drop 19 (butlast line))
                          else gcc_version);
          clang_version' = (if startswith line ''CONFIG_CLANG_VERSION='' then Some (drop 21 (butlast line))
                            else clang_version)
      in compiler_lines gcc_version' clang_version' ls)"

definition detect_compiler :: "filesystem \<Rightarrow> string \<Rightarrow> exn + StrOrNone \<times> string" where
  "detect_compiler fs fname =
     (case open_file fs fname of
        Inl e \<Rightarrow> Inl e
      | Inr f \<Rightarrow>
          (case compiler_lines None None (readlines (contents f)) of
             (Some gcc_version, Some clang_version) \<Rightarrow>
               if gcc_version = ''0'' \<and> clang_version \<noteq> ''0'' then Inr (Some (''CLANG '' @ clang_version), ''OK'')
               else if gcc_version \<noteq> ''0'' \<and> clang_version = ''0'' then Inr (Some (''GCC '' @ gcc_version), ''OK'')
               else Inl (SystemExit (Msg (''[!] ERROR: invalid GCC_VERSION and CLANG_VERSION: '' @ gcc_version @ '' '' @ clang_version)))
           | _ \<Rightarrow> Inr (None, ''no CONFIG_GCC_VERSION or CONFIG_CLANG_VERSION'')))"

text \<open>The result of the loop, from the names it met.\<close>

definition arch_verdict :: "string list \<Rightarrow> StrOrNone \<times> string" where
  "arch_verdict hits =
     (case hits of
        [] \<Rightarrow> (None, ''failed to detect microarchitecture in kconfig'')
      | [a] \<Rightarrow> (Some a, ''OK'')
      | _ \<Rightarrow> (None, ''detected more than one microarchitecture in kconfig''))"

definition arch_seen :: "StrOrNone \<Rightarrow> string list" where
  "arch_seen arch = (case arch of None \<Rightarrow> [] | Some a \<Rightarrow> [a])"

subsection \<open>Checks, the engine and what a run does\<close>

text \<open>
  The check classes belong to the module \<^verbatim>\<open>engine\<close>. Of a check this module reads the
  attributes \<^verbatim>\<open>name\<close> and \<^verbatim>\<open>result\<close> in \<^verbatim>\<open>print_checklist\<close> and \<^verbatim>\<open>perform_checking\<close>; the
  other attributes are the extension of the record.
\<close>

record ChecklistObjType =
  name :: string
  result :: StrOrNone

text \<open>What \<^verbatim>\<open>populate_with_data\<close> receives: a version tuple or parsed options.\<close>

datatype data = Version "int list" | Options "string \<Rightarrow> string option"

text \<open>
  The functions that this module imports from \<^verbatim>\<open>checks\<close> and \<^verbatim>\<open>engine\<close> and whose results
  it uses, and the method \<^verbatim>\<open>json_dump\<close> of a check, are parameters. A function that
  changes the checklist in place returns the new checklist; each of them may raise.
\<close>

record ('c, 'j) engine =
  add_kconfig_checks :: "'c list \<Rightarrow> string \<Rightarrow> exn + 'c list"
  add_cmdline_checks :: "'c list \<Rightarrow> string \<Rightarrow> exn + 'c list"
  add_sysctl_checks :: "'c list \<Rightarrow> StrOrNone \<Rightarrow> exn + 'c list"
  normalize_cmdline_options :: normalizer
  populate_with_data :: "'c list \<Rightarrow> data \<Rightarrow> string \<Rightarrow> exn + 'c list"
  override_expected_value :: "'c list \<Rightarrow> string \<Rightarrow> string \<Rightarrow> exn + 'c list"
  perform_checks :: "'c list \<Rightarrow> exn + 'c list"
  json_dump :: "'c \<Rightarrow> bool \<Rightarrow> exn + 'j"

definition call :: "exn + 'a \<Rightarrow> ('e, 'a) run" where
  "call r = ([], r)"

text \<open>
  What a run does, in order: the text of each \<^verbatim>\<open>print\<close> call, the list that is printed
  as JSON, each call of the method \<^verbatim>\<open>table_print\<close> of a check, and each call of a
  function of \<^verbatim>\<open>engine\<close> with its source tag or its name and value.
\<close>

datatype ('c, 'j) event =
    Stdout string
  | Print_json "'j list"
  | Table_print 'c StrOrNone bool
  | Call_populate_with_data string
  | Call_override_expected_value string string
  | Call_perform_checks
  | Call_print_unknown_options string

subsection \<open>Printing the checklist\<close>

text \<open>\<^verbatim>\<open>str\<close> of a count, and the format \<^verbatim>\<open>^w\<close> that centres a text in a field.\<close>

function str_nat :: "nat \<Rightarrow> string" where
  "str_nat n =
     (if n < 10 then [char_of (48 + n)]
      else str_nat (n div 10) @ [char_of (48 + n mod 10)])"
  by pat_completeness auto
termination
  by (relation "measure id") auto

declare str_nat.simps [simp del]

definition center :: "nat \<Rightarrow> string \<Rightarrow> string" where
  "center w s =
     (let pad = w - length s; left = pad div 2
      in replicate left CHR '' '' @ s @ replicate (pad - left) CHR '' '')"

definition table_header :: string where
  "table_header =
     center 40 ''option_name'' @ ''|'' @ center 7 ''type'' @ ''|'' @ center 12 ''desired_val'' @ ''|''
     @ center 10 ''decision'' @ ''|'' @ center 18 ''reason''"

text \<open>What the loop prints for a check that is not skipped.\<close>

definition table_row :: "StrOrNone \<Rightarrow> bool \<Rightarrow> nat \<Rightarrow> 'c \<Rightarrow> ('c, 'j) event list" where
  "table_row mode with_results sep_line_len opt =
     [Table_print opt mode with_results, Stdout [newline]]
     @ (if mode = Some ''verbose'' then [Stdout (replicate sep_line_len CHR ''-'' @ [newline])] else [])"

text \<open>The loop over the checklist, with its two counters.\<close>

fun table_rows ::
  "StrOrNone \<Rightarrow> bool \<Rightarrow> nat \<Rightarrow> 'a ChecklistObjType_scheme list \<Rightarrow> nat \<Rightarrow> nat
     \<Rightarrow> (('a ChecklistObjType_scheme, 'j) event, nat \<times> nat) run" where
  "table_rows mode with_results sep_line_len [] ok_count fail_count = ret (ok_count, fail_count)"
| "table_rows mode with_results sep_line_len (opt # rest) ok_count fail_count =
     (if with_results then
        (if \<not> truthy (result opt)
         then raise (AssertionError (''unexpected empty result of '' @ name opt @ '' check''))
         else if startswith (the (result opt)) ''OK'' then
           (if mode = Some ''show_fail''
            then table_rows mode with_results sep_line_len rest (ok_count + 1) fail_count
            else bind (emit (table_row mode with_results sep_line_len opt))
                   (\<lambda>_. table_rows mode with_results sep_line_len rest (ok_count + 1) fail_count))
         else if \<not> startswith (the (result opt)) ''FAIL''
         then raise (AssertionError (''unexpected result '' @ [CHR 0x22] @ the (result opt) @ [CHR 0x22]
                      @ '' of '' @ name opt @ '' check''))
         else
           (if mode = Some ''show_ok''
            then table_rows mode with_results sep_line_len rest ok_count (fail_count + 1)
            else bind (emit (table_row mode with_results sep_line_len opt))
                   (\<lambda>_. table_rows mode with_results sep_line_len rest ok_count (fail_count + 1))))
      else bind (emit (table_row mode with_results sep_line_len opt))
             (\<lambda>_. table_rows mode with_results sep_line_len rest ok_count fail_count))"

definition score_line :: "StrOrNone \<Rightarrow> nat \<Rightarrow> nat \<Rightarrow> string" where
  "score_line mode ok_count fail_count =
     (let fail_suppressed = (if mode = Some ''show_ok'' then '' (suppressed in output)'' else '''');
          ok_suppressed = (if mode = Some ''show_fail'' then '' (suppressed in output)'' else '''')
      in ''[+] Config check is finished: '' @ [CHR 0x27] @ ''OK'' @ [CHR 0x27] @ '' - '' @ str_nat ok_count
         @ ok_suppressed @ '' / '' @ [CHR 0x27] @ ''FAIL'' @ [CHR 0x27] @ '' - '' @ str_nat fail_count
         @ fail_suppressed @ [newline])"

text \<open>The list \<^verbatim>\<open>output\<close> of the JSON branch.\<close>

fun json_dumps :: "('c \<Rightarrow> bool \<Rightarrow> exn + 'j) \<Rightarrow> bool \<Rightarrow> 'c list \<Rightarrow> exn + 'j list" where
  "json_dumps dump with_results [] = Inr []"
| "json_dumps dump with_results (opt # rest) =
     (case dump opt with_results of
        Inl e \<Rightarrow> Inl e
      | Inr j \<Rightarrow>
          (case json_dumps dump with_results rest of
             Inl e \<Rightarrow> Inl e
           | Inr js \<Rightarrow> Inr (j # js)))"

definition print_checklist ::
  "('a ChecklistObjType_scheme \<Rightarrow> bool \<Rightarrow> exn + 'j) \<Rightarrow> StrOrNone \<Rightarrow> 'a ChecklistObjType_scheme list \<Rightarrow> bool
     \<Rightarrow> (('a ChecklistObjType_scheme, 'j) event, unit) run" where
  "print_checklist dump mode checklist with_results =
     (if mode = Some ''json''
      then bind (call (json_dumps dump with_results checklist)) (\<lambda>output. emit [Print_json output])
      else
        (let sep_line_len = (if with_results then 91 + 30 else 91) in
         bind (emit ([Stdout (replicate sep_line_len CHR ''='' @ [newline]), Stdout table_header]
                     @ (if with_results then [Stdout ''| check_result''] else [])
                     @ [Stdout [newline], Stdout (replicate sep_line_len CHR ''='' @ [newline])]))
           (\<lambda>_. bind (table_rows mode with_results sep_line_len checklist 0 0)
             (\<lambda>(ok_count, fail_count). bind (emit [Stdout [newline]])
               (\<lambda>_. if with_results then emit [Stdout (score_line mode ok_count fail_count)]
                     else ret ())))))"

text \<open>
  The claim's words: a verdict is a result that starts with \<^verbatim>\<open>OK\<close> or \<^verbatim>\<open>FAIL\<close>; the
  checks that a run printed are those of its \<^verbatim>\<open>table_print\<close> calls, in order.
\<close>

definition is_ok :: "'a ChecklistObjType_scheme \<Rightarrow> bool" where
  "is_ok opt = (case result opt of None \<Rightarrow> False | Some r \<Rightarrow> startswith r ''OK'')"

definition is_fail :: "'a ChecklistObjType_scheme \<Rightarrow> bool" where
  "is_fail opt = (case result opt of None \<Rightarrow> False | Some r \<Rightarrow> \<not> startswith r ''OK'' \<and> startswith r ''FAIL'')"

definition has_verdict :: "'a ChecklistObjType_scheme \<Rightarrow> bool" where
  "has_verdict opt = (is_ok opt \<or> is_fail opt)"

fun printed_checks :: "('c, 'j) event list \<Rightarrow> 'c list" where
  "printed_checks [] = []"
| "printed_checks (Table_print opt mode with_results # es) = opt # printed_checks es"
| "printed_checks (e # es) = printed_checks es"

text \<open>The checks that a mode shows in a report with results.\<close>

definition shown :: "StrOrNone \<Rightarrow> 'a ChecklistObjType_scheme \<Rightarrow> bool" where
  "shown mode opt =
     (if is_ok opt then mode \<noteq> Some ''show_fail'' else mode \<noteq> Some ''show_ok'')"

subsection \<open>The driver\<close>

text \<open>A file argument is used when it is neither \<^verbatim>\<open>None\<close> nor empty.\<close>

definition supplied :: "StrOrNone \<Rightarrow> string option" where
  "supplied v = (if truthy v then v else None)"

text \<open>Lines 255 to 270: the microarchitecture.\<close>

definition pc_detect_arch ::
  "filesystem \<Rightarrow> StrOrNone \<Rightarrow> StrOrNone \<Rightarrow> StrOrNone \<Rightarrow> StrOrNone \<Rightarrow> (('c, 'j) event, StrOrNone) run" where
  "pc_detect_arch fs mode kconfig cmdline sysctl =
     (case supplied kconfig of
        Some k \<Rightarrow>
          bind (call (detect_arch_kconfig fs k))
            (\<lambda>(arch, msg).
               case arch of
                 None \<Rightarrow> raise (SystemExit (Msg (''[!] ERROR: '' @ msg)))
               | Some a \<Rightarrow>
                   bind (emit (if mode \<noteq> Some ''json''
                               then [Stdout (''[+] Detected microarchitecture: '' @ a @ [newline])] else []))
                     (\<lambda>_. ret arch))
      | None \<Rightarrow>
          if truthy cmdline then raise (AssertionError ''wrong perform_checking() usage'')
          else
            (case supplied sysctl of
               None \<Rightarrow> raise (AssertionError ''wrong perform_checking() usage'')
             | Some s \<Rightarrow>
                 bind (call (detect_arch_sysctl fs s))
                   (\<lambda>(arch, msg).
                      bind (emit (if mode \<noteq> Some ''json''
                                  then [Stdout (case arch of
                                           None \<Rightarrow> ''[!] WARNING: '' @ msg @ '', arch-dependent checks will be dropped'' @ [newline]
                                         | Some a \<Rightarrow> ''[+] Detected microarchitecture: '' @ a @ '' ('' @ msg @ '')'' @ [newline])]
                                  else []))
                        (\<lambda>_. ret arch))))"

text \<open>Lines 272 to 279: the compiler.\<close>

definition pc_detect_compiler ::
  "filesystem \<Rightarrow> StrOrNone \<Rightarrow> StrOrNone \<Rightarrow> (('c, 'j) event, unit) run" where
  "pc_detect_compiler fs mode kconfig =
     (case supplied kconfig of
        None \<Rightarrow> ret ()
      | Some k \<Rightarrow>
          bind (call (detect_compiler fs k))
            (\<lambda>(compiler, msg).
               emit (if mode \<noteq> Some ''json''
                     then [Stdout (if truthy compiler
                                   then ''[+] Detected compiler: '' @ the compiler @ [newline]
                                   else ''[-] Can'' @ [CHR 0x27] @ ''t detect the compiler: '' @ msg @ [newline])]
                     else [])))"

text \<open>Lines 281 to 293: the checks of the catalog, for each source that is supplied.\<close>

definition pc_add_checks ::
  "('c, 'j) engine \<Rightarrow> StrOrNone \<Rightarrow> StrOrNone \<Rightarrow> StrOrNone \<Rightarrow> StrOrNone \<Rightarrow> (('c, 'j) event, 'c list) run" where
  "pc_add_checks E arch kconfig cmdline sysctl =
     bind (case supplied kconfig of
             None \<Rightarrow> ret []
           | Some _ \<Rightarrow>
               if \<not> truthy arch then raise (AssertionError ''arch is mandatory for the kconfig checks'')
               else call (add_kconfig_checks E [] (the arch)))
       (\<lambda>config_checklist.
          bind (case supplied cmdline of
                  None \<Rightarrow> ret config_checklist
                | Some _ \<Rightarrow>
                    if \<not> truthy arch then raise (AssertionError ''arch is mandatory for the cmdline checks'')
                    else call (add_cmdline_checks E config_checklist (the arch)))
            (\<lambda>config_checklist.
               case supplied sysctl of
                 None \<Rightarrow> ret config_checklist
               | Some _ \<Rightarrow> call (add_sysctl_checks E config_checklist arch)))"

text \<open>Lines 295 to 297: the kernel version; an empty tuple counts as none.\<close>

definition pc_version ::
  "('c, 'j) engine \<Rightarrow> TupleOrNone \<Rightarrow> 'c list \<Rightarrow> (('c, 'j) event, 'c list) run" where
  "pc_version E version config_checklist =
     (case version of
        None \<Rightarrow> ret config_checklist
      | Some v \<Rightarrow>
          if v = [] then ret config_checklist
          else bind (emit [Call_populate_with_data ''version''])
                 (\<lambda>_. call (populate_with_data E config_checklist (Version v) ''version'')))"

text \<open>
  Lines 299 to 313: the Kconfig options, and the refinement of the check
  \<^verbatim>\<open>CONFIG_ARCH_MMAP_RND_BITS\<close>, or its removal.
\<close>

definition pc_kconfig ::
  "('a ChecklistObjType_scheme, 'j) engine \<Rightarrow> filesystem \<Rightarrow> StrOrNone \<Rightarrow> StrOrNone
     \<Rightarrow> 'a ChecklistObjType_scheme list
     \<Rightarrow> (('a ChecklistObjType_scheme, 'j) event, 'a ChecklistObjType_scheme list) run" where
  "pc_kconfig E fs mode kconfig config_checklist =
     (case supplied kconfig of
        None \<Rightarrow> ret config_checklist
      | Some k \<Rightarrow>
          bind (lift_out Stdout (parse_kconfig_file fs mode Map.empty k))
            (\<lambda>parsed_kconfig_options.
               bind (emit [Call_populate_with_data ''kconfig''])
                 (\<lambda>_. bind (call (populate_with_data E config_checklist (Options parsed_kconfig_options) ''kconfig''))
                   (\<lambda>config_checklist.
                      let mmap_rnd_bits_max = parsed_kconfig_options ''CONFIG_ARCH_MMAP_RND_BITS_MAX'' in
                      if truthy mmap_rnd_bits_max
                      then bind (emit [Call_override_expected_value ''CONFIG_ARCH_MMAP_RND_BITS'' (the mmap_rnd_bits_max)])
                             (\<lambda>_. call (override_expected_value E config_checklist ''CONFIG_ARCH_MMAP_RND_BITS''
                                           (the mmap_rnd_bits_max)))
                      else bind (emit (if mode \<noteq> Some ''json''
                                       then [Stdout (''[-] Can'' @ [CHR 0x27] @ ''t check CONFIG_ARCH_MMAP_RND_BITS without CONFIG_ARCH_MMAP_RND_BITS_MAX'' @ [newline])]
                                       else []))
                             (\<lambda>_. ret (filter (\<lambda>opt. name opt \<noteq> ''CONFIG_ARCH_MMAP_RND_BITS'') config_checklist))))))"

text \<open>Lines 315 to 319 and 321 to 325: the cmdline and the sysctl options.\<close>

definition pc_cmdline ::
  "('c, 'j) engine \<Rightarrow> filesystem \<Rightarrow> StrOrNone \<Rightarrow> StrOrNone \<Rightarrow> 'c list \<Rightarrow> (('c, 'j) event, 'c list) run" where
  "pc_cmdline E fs mode cmdline config_checklist =
     (case supplied cmdline of
        None \<Rightarrow> ret config_checklist
      | Some c \<Rightarrow>
          bind (lift_out Stdout (parse_cmdline_file (normalize_cmdline_options E) fs mode Map.empty c))
            (\<lambda>parsed_cmdline_options.
               bind (emit [Call_populate_with_data ''cmdline''])
                 (\<lambda>_. call (populate_with_data E config_checklist (Options parsed_cmdline_options) ''cmdline''))))"

definition pc_sysctl ::
  "('c, 'j) engine \<Rightarrow> filesystem \<Rightarrow> StrOrNone \<Rightarrow> StrOrNone \<Rightarrow> 'c list \<Rightarrow> (('c, 'j) event, 'c list) run" where
  "pc_sysctl E fs mode sysctl config_checklist =
     (case supplied sysctl of
        None \<Rightarrow> ret config_checklist
      | Some s \<Rightarrow>
          bind (lift_out Stdout (parse_sysctl_file fs mode Map.empty s))
            (\<lambda>parsed_sysctl_options.
               bind (emit [Call_populate_with_data ''sysctl''])
                 (\<lambda>_. call (populate_with_data E config_checklist (Options parsed_sysctl_options) ''sysctl''))))"

text \<open>
  Lines 327 to 341: the evaluation, the unknown options in verbose mode, the report, and
  the end of the program.
\<close>

definition pc_report ::
  "('a ChecklistObjType_scheme, 'j) engine \<Rightarrow> StrOrNone \<Rightarrow> StrOrNone \<Rightarrow> StrOrNone \<Rightarrow> StrOrNone
     \<Rightarrow> 'a ChecklistObjType_scheme list \<Rightarrow> (('a ChecklistObjType_scheme, 'j) event, unit) run" where
  "pc_report E mode kconfig cmdline sysctl config_checklist =
     bind (emit [Call_perform_checks])
       (\<lambda>_. bind (call (perform_checks E config_checklist))
         (\<lambda>config_checklist.
            bind (emit (if mode = Some ''verbose''
                        then (if truthy kconfig then [Call_print_unknown_options ''kconfig''] else [])
                             @ (if truthy cmdline then [Call_print_unknown_options ''cmdline''] else [])
                             @ (if truthy sysctl then [Call_print_unknown_options ''sysctl''] else [])
                        else []))
              (\<lambda>_. bind (print_checklist (json_dump E) mode config_checklist True)
                (\<lambda>_. raise (SystemExit (Code 0))))))"

text \<open>Lines 252 to 325: everything before the evaluation; the result is the checklist.\<close>

definition pc_prepare ::
  "('a ChecklistObjType_scheme, 'j) engine \<Rightarrow> filesystem \<Rightarrow> StrOrNone \<Rightarrow> TupleOrNone
     \<Rightarrow> StrOrNone \<Rightarrow> StrOrNone \<Rightarrow> StrOrNone
     \<Rightarrow> (('a ChecklistObjType_scheme, 'j) event, 'a ChecklistObjType_scheme list) run" where
  "pc_prepare E fs mode version kconfig cmdline sysctl =
     bind (pc_detect_arch fs mode kconfig cmdline sysctl)
       (\<lambda>arch. bind (pc_detect_compiler fs mode kconfig)
         (\<lambda>_. bind (pc_add_checks E arch kconfig cmdline sysctl)
           (\<lambda>config_checklist. bind (pc_version E version config_checklist)
             (\<lambda>config_checklist. bind (pc_kconfig E fs mode kconfig config_checklist)
               (\<lambda>config_checklist. bind (pc_cmdline E fs mode cmdline config_checklist)
                 (\<lambda>config_checklist. pc_sysctl E fs mode sysctl config_checklist))))))"

definition perform_checking ::
  "('a ChecklistObjType_scheme, 'j) engine \<Rightarrow> filesystem \<Rightarrow> StrOrNone \<Rightarrow> TupleOrNone
     \<Rightarrow> StrOrNone \<Rightarrow> StrOrNone \<Rightarrow> StrOrNone
     \<Rightarrow> (('a ChecklistObjType_scheme, 'j) event, unit) run" where
  "perform_checking E fs mode version kconfig cmdline sysctl =
     bind (pc_prepare E fs mode version kconfig cmdline sysctl)
       (\<lambda>config_checklist. pc_report E mode kconfig cmdline sysctl config_checklist)"

text \<open>
  The order of the calls in a run. Each call of a function of \<^verbatim>\<open>engine\<close> has a rank:
  the place of the call in the text of \<^verbatim>\<open>perform_checking\<close>. A run is staged between
  two ranks when the ranks of its calls increase and lie between the two.
\<close>

fun call_rank :: "('c, 'j) event \<Rightarrow> nat option" where
  "call_rank (Call_populate_with_data t) =
     Some (if t = ''version'' then 0 else if t = ''kconfig'' then 1
           else if t = ''cmdline'' then 3 else if t = ''sysctl'' then 4 else 9)"
| "call_rank (Call_override_expected_value n v) = Some 2"
| "call_rank Call_perform_checks = Some 5"
| "call_rank (Call_print_unknown_options t) =
     Some (if t = ''kconfig'' then 6 else if t = ''cmdline'' then 7 else 8)"
| "call_rank e = None"

definition call_ranks :: "('c, 'j) event list \<Rightarrow> nat list" where
  "call_ranks out = List.map_filter call_rank out"

definition staged :: "nat \<Rightarrow> nat \<Rightarrow> (('c, 'j) event, 'a) run \<Rightarrow> bool" where
  "staged lo hi r =
     (sorted_wrt (<) (call_ranks (fst r)) \<and> (\<forall>x \<in> set (call_ranks (fst r)). lo \<le> x \<and> x \<le> hi))"

text \<open>The calls of the functions of \<^verbatim>\<open>engine\<close> in a run, without what is printed.\<close>

definition engine_calls :: "('c, 'j) event list \<Rightarrow> ('c, 'j) event list" where
  "engine_calls out = filter (\<lambda>e. call_rank e \<noteq> None) out"

text \<open>
  What the claims take for granted about the engine: its functions hand back the
  checks they were given, in the same order, under the same names.
\<close>

definition keeps_names :: "('a ChecklistObjType_scheme, 'j) engine \<Rightarrow> bool" where
  "keeps_names E =
     ((\<forall>cl d t cl'. populate_with_data E cl d t = Inr cl' \<longrightarrow> map name cl' = map name cl)
      \<and> (\<forall>cl n v cl'. override_expected_value E cl n v = Inr cl' \<longrightarrow> map name cl' = map name cl)
      \<and> (\<forall>cl cl'. perform_checks E cl = Inr cl' \<longrightarrow> map name cl' = map name cl))"

text \<open>The head of the table, as \<^verbatim>\<open>print_checklist\<close> prints it.\<close>

definition table_head :: "bool \<Rightarrow> nat \<Rightarrow> ('c, 'j) event list" where
  "table_head with_results sep_line_len =
     [Stdout (replicate sep_line_len CHR ''='' @ [newline]), Stdout table_header]
     @ (if with_results then [Stdout ''| check_result''] else [])
     @ [Stdout [newline], Stdout (replicate sep_line_len CHR ''='' @ [newline])]"

text \<open>Properties of every event of a run.\<close>

fun is_stdout :: "('c, 'j) event \<Rightarrow> bool" where
  "is_stdout (Stdout s) = True"
| "is_stdout e = False"

definition all_events :: "(('c, 'j) event \<Rightarrow> bool) \<Rightarrow> (('c, 'j) event, 'a) run \<Rightarrow> bool" where
  "all_events P r = list_all P (fst r)"

definition populated_first :: "(('c, 'j) event, 'a) run \<Rightarrow> bool" where
  "populated_first r = (2 \<in> set (call_ranks (fst r)) \<longrightarrow> 1 \<in> set (call_ranks (fst r)))"

text \<open>Whether an event is a call of the method \<^verbatim>\<open>table_print\<close> of a check.\<close>

fun is_table_print :: "('c, 'j) event \<Rightarrow> bool" where
  "is_table_print (Table_print opt mode with_results) = True"
| "is_table_print e = False"

subsection \<open>Example inputs\<close>

definition sysctl_example_file :: text_file where
  "sysctl_example_file = \<lparr>st_size = 15, contents = ''a.b = 1'' @ [newline] @ ''a.b=2'' @ [newline]\<rparr>"

definition sysctl_example :: filesystem where
  "sysctl_example = (\<lambda>n. if n = ''sysctl.txt'' then Some sysctl_example_file else None)"




definition kconfig_stray_file :: text_file where
  "kconfig_stray_file = \<lparr>st_size = 19, contents = ''CONFIG_A=y\<newline>foo bar\<newline>''\<rparr>"

definition kconfig_bad_file :: text_file where
  "kconfig_bad_file = \<lparr>st_size = 20, contents = ''CONFIG_A=is not set\<newline>''\<rparr>"

definition kconfig_twice_file :: text_file where
  "kconfig_twice_file = \<lparr>st_size = 33, contents = ''CONFIG_A=y\<newline># CONFIG_A is not set\<newline>''\<rparr>"

definition kconfig_good_file :: text_file where
  "kconfig_good_file =
     \<lparr>st_size = 44, contents = ''CONFIG_A=y\<newline># CONFIG_B is not set\<newline># comment\<newline>\<newline>''\<rparr>"

definition kconfig_example :: filesystem where
  "kconfig_example =
     (\<lambda>n. if n = ''stray'' then Some kconfig_stray_file
          else if n = ''bad'' then Some kconfig_bad_file
          else if n = ''twice'' then Some kconfig_twice_file
          else if n = ''good'' then Some kconfig_good_file
          else None)"

definition arch_one_file :: text_file where
  "arch_one_file = \<lparr>st_size = 54, contents = ''CONFIG_64BIT=y\<newline>CONFIG_X86_64=y\<newline># CONFIG_ARM is not set\<newline>''\<rparr>"

definition arch_two_file :: text_file where
  "arch_two_file = \<lparr>st_size = 30, contents = ''CONFIG_ARM64=y\<newline>CONFIG_X86_64=y\<newline>''\<rparr>"

definition arch_none_file :: text_file where
  "arch_none_file = \<lparr>st_size = 15, contents = ''CONFIG_64BIT=y\<newline>''\<rparr>"

definition arch_twice_file :: text_file where
  "arch_twice_file = \<lparr>st_size = 26, contents = ''CONFIG_ARM=y\<newline>CONFIG_ARM=y\<newline>''\<rparr>"

definition arch_example :: filesystem where
  "arch_example =
     (\<lambda>n. if n = ''one'' then Some arch_one_file
          else if n = ''two'' then Some arch_two_file
          else if n = ''none'' then Some arch_none_file
          else if n = ''twice'' then Some arch_twice_file
          else None)"

definition version_config_file :: text_file where
  "version_config_file = \<lparr>st_size = 45, contents = ''#\<newline># Linux/x86 5.10.0-7 Kernel Configuration\<newline>#\<newline>''\<rparr>"

definition version_proc_file :: text_file where
  "version_proc_file = \<lparr>st_size = 24, contents = ''Linux version 6.1 (gcc)\<newline>''\<rparr>"

definition version_plain_file :: text_file where
  "version_plain_file = \<lparr>st_size = 11, contents = ''CONFIG_X=y\<newline>''\<rparr>"

definition version_late_file :: text_file where
  "version_late_file = \<lparr>st_size = 42, contents = ''Linux version next\<newline>Linux version 5.10.0 x\<newline>''\<rparr>"

definition version_short_file :: text_file where
  "version_short_file = \<lparr>st_size = 16, contents = ''Linux version  \<newline>''\<rparr>"

definition version_example :: filesystem where
  "version_example =
     (\<lambda>n. if n = ''config'' then Some version_config_file
          else if n = ''proc'' then Some version_proc_file
          else if n = ''plain'' then Some version_plain_file
          else if n = ''late'' then Some version_late_file
          else if n = ''short'' then Some version_short_file
          else None)"

definition check_ok :: ChecklistObjType where
  "check_ok = \<lparr>name = ''CONFIG_BUG'', result = Some ''OK''\<rparr>"

definition check_fail :: ChecklistObjType where
  "check_fail = \<lparr>name = ''CONFIG_SLUB_DEBUG'', result = Some ''FAIL: is not found''\<rparr>"

definition check_unevaluated :: ChecklistObjType where
  "check_unevaluated = \<lparr>name = ''CONFIG_KFENCE'', result = None\<rparr>"

definition check_bogus :: ChecklistObjType where
  "check_bogus = \<lparr>name = ''CONFIG_IOMMU_SUPPORT'', result = Some ''WARN''\<rparr>"

definition check_odd :: ChecklistObjType where
  "check_odd = \<lparr>name = ''CONFIG_WERROR'', result = Some ''UNKNOWN''\<rparr>"

definition example_dump :: "ChecklistObjType \<Rightarrow> bool \<Rightarrow> exn + string" where
  "example_dump opt with_results = Inr (name opt)"

definition check_mmap :: ChecklistObjType where
  "check_mmap = \<lparr>name = ''CONFIG_ARCH_MMAP_RND_BITS'', result = None\<rparr>"

definition check_stackprotector :: ChecklistObjType where
  "check_stackprotector = \<lparr>name = ''CONFIG_STACKPROTECTOR'', result = None\<rparr>"

definition check_kptr :: ChecklistObjType where
  "check_kptr = \<lparr>name = ''kernel.kptr_restrict'', result = None\<rparr>"

definition example_engine :: "(ChecklistObjType, string) engine" where
  "example_engine =
     \<lparr>add_kconfig_checks = (\<lambda>cl arch. Inr (cl @ [check_stackprotector, check_mmap])),
      add_cmdline_checks = (\<lambda>cl arch. Inr cl),
      add_sysctl_checks = (\<lambda>cl arch. Inr (cl @ [check_kptr])),
      normalize_cmdline_options = (\<lambda>key v. Some v),
      populate_with_data = (\<lambda>cl d t. Inr cl),
      override_expected_value = (\<lambda>cl key v. Inr cl),
      perform_checks = (\<lambda>cl. Inr (map (\<lambda>opt. opt\<lparr>result := Some ''OK''\<rparr>) cl)),
      json_dump = example_dump\<rparr>"

definition run_config_file :: text_file where
  "run_config_file = \<lparr>st_size = 49, contents = ''CONFIG_X86_64=y\<newline>CONFIG_ARCH_MMAP_RND_BITS_MAX=32\<newline>''\<rparr>"

definition run_nomax_file :: text_file where
  "run_nomax_file = \<lparr>st_size = 16, contents = ''CONFIG_X86_64=y\<newline>''\<rparr>"

definition run_sysctl_file :: text_file where
  "run_sysctl_file = \<lparr>st_size = 18, contents = ''kernel.printk = 4\<newline>''\<rparr>"

definition run_example :: filesystem where
  "run_example =
     (\<lambda>n. if n = ''config'' then Some run_config_file
          else if n = ''nomax'' then Some run_nomax_file
          else if n = ''sysctl'' then Some run_sysctl_file
          else None)"

text \<open>
  An engine for the examples whose checks carry the value that they expect:
  \<^verbatim>\<open>override_expected_value\<close> replaces it in the checks of the given name.
\<close>

record RefinedCheck = ChecklistObjType +
  expected :: string

definition check_mmap_28 :: RefinedCheck where
  "check_mmap_28 = \<lparr>name = ''CONFIG_ARCH_MMAP_RND_BITS'', result = None, expected = ''28''\<rparr>"

definition refining_engine :: "(RefinedCheck, string) engine" where
  "refining_engine =
     \<lparr>add_kconfig_checks = (\<lambda>cl arch. Inr (cl @ [check_mmap_28])),
      add_cmdline_checks = (\<lambda>cl arch. Inr cl),
      add_sysctl_checks = (\<lambda>cl arch. Inr cl),
      normalize_cmdline_options = (\<lambda>key v. Some v),
      populate_with_data = (\<lambda>cl d t. Inr cl),
      override_expected_value =
        (\<lambda>cl key v. Inr (map (\<lambda>opt. if name opt = key then opt\<lparr>expected := v\<rparr> else opt) cl)),
      perform_checks = (\<lambda>cl. Inr (map (\<lambda>opt. opt\<lparr>result := Some ''OK''\<rparr>) cl)),
      json_dump = (\<lambda>opt with_results. Inr (name opt))\<rparr>"

section \<open>Facts about effects and text operations\<close>

lemma snd_bind: "snd (bind r k) = (case snd r of Inl x \<Rightarrow> Inl x | Inr a \<Rightarrow> snd (k a))"
  by (cases r) (auto simp: bind_def split: sum.splits prod.splits)

lemma fst_bind: "fst (bind r k) = (case snd r of Inl x \<Rightarrow> fst r | Inr a \<Rightarrow> fst r @ fst (k a))"
  by (cases r) (auto simp: bind_def split: sum.splits prod.splits)

lemma run_simps [simp]:
  "snd (ret a) = Inr a" "fst (ret a) = []"
  "snd (raise x) = Inl x" "fst (raise x) = []"
  "snd (emit es) = Inr ()" "fst (emit es) = es"
  by (simp_all add: ret_def raise_def emit_def)

lemma takeWhile_no_sep: "sep \<notin> set t \<Longrightarrow> takeWhile (\<lambda>c. c \<noteq> sep) t = t"
  by (induction t) auto

lemma takeWhile_at_sep: "sep \<notin> set n \<Longrightarrow> takeWhile (\<lambda>c. c \<noteq> sep) (n @ sep # v) = n"
  by (induction n) auto

lemma dropWhile_at_sep: "sep \<notin> set n \<Longrightarrow> dropWhile (\<lambda>c. c \<noteq> sep) (n @ sep # v) = sep # v"
  by (induction n) auto

section \<open>The sysctl parser keeps the last value\<close>


lemma re_plus_D:
  assumes "re_plus P k s"
  shows "\<exists>n. 1 \<le> n \<and> n \<le> length s \<and> list_all P (take n s) \<and> k (drop n s)"
  using assms by (auto simp: re_plus_def list_ex_iff)

lemma re_lit_set: "re_lit w k s \<Longrightarrow> set w \<subseteq> set s"
  by (auto simp: re_lit_def prefix_def)

lemma re_lit_cont: "re_lit w k s \<Longrightarrow> k (drop (length w) s)"
  by (simp add: re_lit_def)

lemma sysctl_pattern_has_eq:
  assumes "sysctl_pattern line"
  shows "CHR ''='' \<in> set line"
proof -
  let ?k = "re_lit ''='' (re_star re_dot (re_dollar re_end))"
  from assms obtain n where n: "re_opt '' '' ?k (drop n line)"
    unfolding sysctl_pattern_def by (blast dest: re_plus_D)
  then have "re_lit '' '' ?k (drop n line) \<or> ?k (drop n line)"
    by (simp add: re_opt_def)
  then have "CHR ''='' \<in> set (drop n line)"
  proof
    assume a: "re_lit '' '' ?k (drop n line)"
    then have "?k (drop (length '' '') (drop n line))"
      by (rule re_lit_cont)
    then have "set ''='' \<subseteq> set (drop (length '' '') (drop n line))"
      by (rule re_lit_set)
    then have "CHR ''='' \<in> set (drop (length '' '') (drop n line))"
      by simp
    then show ?thesis
      by (rule in_set_dropD)
  next
    assume "?k (drop n line)"
    then have "set ''='' \<subseteq> set (drop n line)"
      by (rule re_lit_set)
    then show ?thesis by simp
  qed
  then show ?thesis
    by (rule in_set_dropD)
qed


lemma sysctl_lines_skip:
  "\<not> sysctl_counts l \<Longrightarrow> sysctl_lines parsed_options (l # ls) = sysctl_lines parsed_options ls"
  by (simp add: sysctl_counts_def Let_def)

lemma sysctl_lines_take:
  assumes "sysctl_counts l" and "sysctl_pattern (strip l)"
  shows "sysctl_lines parsed_options (l # ls)
    = sysctl_lines (parsed_options(fst (sysctl_entry l) \<mapsto> snd (sysctl_entry l))) ls"
proof -
  from assms(2) have "CHR ''='' \<in> set (strip l)"
    by (rule sysctl_pattern_has_eq)
  then have "split1 CHR ''='' (strip l)
      = [takeWhile (\<lambda>c. c \<noteq> CHR ''='') (strip l), tl (dropWhile (\<lambda>c. c \<noteq> CHR ''='') (strip l))]"
    by (simp add: split1_def)
  with assms show ?thesis
    by (simp add: sysctl_counts_def Let_def sysctl_entry_def)
qed

lemma map_add_upd_left:
  "m(k \<mapsto> v) ++ map_of xs = m ++ map_of (xs @ [(k, v)])"
  by (rule ext) (simp add: map_add_def split: option.splits)

lemma sysctl_lines_ok:
  assumes "\<forall>l \<in> set ls. sysctl_counts l \<longrightarrow> sysctl_pattern (strip l)"
  shows "sysctl_lines parsed_options ls = Inr (parsed_options ++ map_of (rev (sysctl_entries ls)))"
  using assms
proof (induction ls arbitrary: parsed_options)
  case Nil
  then show ?case by (simp add: sysctl_entries_def)
next
  case (Cons l ls)
  from Cons.prems have rest: "\<forall>l \<in> set ls. sysctl_counts l \<longrightarrow> sysctl_pattern (strip l)"
    by simp
  show ?case
  proof (cases "sysctl_counts l")
    case False
    then have "sysctl_entries (l # ls) = sysctl_entries ls"
      by (simp add: sysctl_entries_def)
    with Cons.IH [OF rest] show ?thesis
      by (simp add: sysctl_lines_skip [OF False] del: sysctl_lines.simps)
  next
    case True
    with Cons.prems have pat: "sysctl_pattern (strip l)" by simp
    from True have ents: "sysctl_entries (l # ls) = sysctl_entry l # sysctl_entries ls"
      by (simp add: sysctl_entries_def)
    have "sysctl_lines parsed_options (l # ls)
        = Inr (parsed_options(fst (sysctl_entry l) \<mapsto> snd (sysctl_entry l)) ++ map_of (rev (sysctl_entries ls)))"
      by (simp only: sysctl_lines_take [OF True pat] Cons.IH [OF rest])
    also have "\<dots> = Inr (parsed_options ++ map_of (rev (sysctl_entries (l # ls))))"
      by (simp only: ents map_add_upd_left rev.simps prod.collapse)
    finally show ?thesis .
  qed
qed

lemma map_of_rev_last:
  assumes "es = before @ (key, v) # after" and "key \<notin> fst ` set after"
  shows "map_of (rev es) key = Some v"
proof -
  from assms(2) have "map_of (rev after) key = None"
    by (simp add: map_of_eq_None_iff)
  with assms(1) show ?thesis
    by (simp add: map_add_def)
qed

text \<open>
  C10. In \<^verbatim>\<open>parse_sysctl_file\<close> a repeated option name is not an error: when the file is
  not empty and every line that counts is well-formed, the parser returns a mapping, and
  for every option name that mapping holds the stripped value of the last line of the
  file that sets it; names that the file does not set keep what \<open>parsed_options\<close> had.
\<close>

theorem parse_sysctl_file_last_occurrence:
  assumes "fs fname = Some f" and "st_size f \<noteq> 0"
    and "\<forall>l \<in> set (readlines (contents f)). sysctl_counts l \<longrightarrow> sysctl_pattern (strip l)"
  shows "\<exists>out m. parse_sysctl_file fs mode parsed_options fname = (out, Inr m)
    \<and> (\<forall>key v before after.
          sysctl_entries (readlines (contents f)) = before @ (key, v) # after
          \<and> key \<notin> fst ` set after \<longrightarrow> m key = Some v)
    \<and> (\<forall>key. key \<notin> fst ` set (sysctl_entries (readlines (contents f)))
          \<longrightarrow> m key = parsed_options key)"
proof -
  let ?es = "sysctl_entries (readlines (contents f))"
  let ?m = "parsed_options ++ map_of (rev ?es)"
  from assms(3) have loop: "sysctl_lines parsed_options (readlines (contents f)) = Inr ?m"
    by (rule sysctl_lines_ok)
  with assms(1,2)
  have "parse_sysctl_file fs mode parsed_options fname = (sysctl_warnings mode ?m fname, Inr ?m)"
    by (simp add: parse_sysctl_file_def open_file_def)
  moreover have "\<forall>key v before after.
      ?es = before @ (key, v) # after \<and> key \<notin> fst ` set after \<longrightarrow> ?m key = Some v"
  proof (intro allI impI, elim conjE)
    fix key v before after
    assume "?es = before @ (key, v) # after" and "key \<notin> fst ` set after"
    then have "map_of (rev ?es) key = Some v"
      by (rule map_of_rev_last)
    then show "?m key = Some v"
      by (simp add: map_add_def)
  qed
  moreover have "\<forall>key. key \<notin> fst ` set ?es \<longrightarrow> ?m key = parsed_options key"
  proof (intro allI impI)
    fix key assume "key \<notin> fst ` set ?es"
    then have "map_of (rev ?es) key = None"
      by (simp add: map_of_eq_None_iff)
    then show "?m key = parsed_options key"
      by (simp add: map_add_def)
  qed
  ultimately show ?thesis by blast
qed

lemmas regex_defs =
  re_plus_def re_star_def re_opt_def re_lit_def re_dollar_def re_end_def re_dot_def in_range_def

lemma sysctl_example_lines:
  "readlines (contents sysctl_example_file) = [''a.b = 1'' @ [newline], ''a.b=2'' @ [newline]]"
  by (simp add: sysctl_example_file_def readlines_def)

lemma sysctl_example_entries:
  "sysctl_entries [''a.b = 1'' @ [newline], ''a.b=2'' @ [newline]] = [(''a.b'', ''1'')] @ (''a.b'', ''2'') # []"
  by (simp add: sysctl_entries_def sysctl_entry_def sysctl_counts_def startswith_def strip_def isspace_def)

theorem parse_sysctl_file_last_occurrence_witness:
  "\<exists>out m. parse_sysctl_file sysctl_example None Map.empty ''sysctl.txt'' = (out, Inr m)
     \<and> m ''a.b'' = Some ''2''"
proof -
  have f: "sysctl_example ''sysctl.txt'' = Some sysctl_example_file"
    by (simp add: sysctl_example_def)
  have sz: "st_size sysctl_example_file \<noteq> 0"
    by (simp add: sysctl_example_file_def)
  have wf: "\<forall>l \<in> set (readlines (contents sysctl_example_file)).
      sysctl_counts l \<longrightarrow> sysctl_pattern (strip l)"
    unfolding sysctl_example_lines
    by (simp add: sysctl_counts_def startswith_def strip_def isspace_def sysctl_pattern_def
        sysctl_char_def regex_defs)
  from parse_sysctl_file_last_occurrence
    [of sysctl_example "''sysctl.txt''" sysctl_example_file None Map.empty, OF f sz wf]
  obtain out m where run: "parse_sysctl_file sysctl_example None Map.empty ''sysctl.txt'' = (out, Inr m)"
    and last: "\<forall>key v before after.
          sysctl_entries (readlines (contents sysctl_example_file)) = before @ (key, v) # after
          \<and> key \<notin> fst ` set after \<longrightarrow> m key = Some v"
    by auto
  from last [unfolded sysctl_example_lines] sysctl_example_entries
  have "m ''a.b'' = Some ''2''"
    by (metis empty_iff empty_set image_empty)
  with run show ?thesis by blast
qed

section \<open>The cmdline parser records every token\<close>








section \<open>The Kconfig parser rejects malformed input\<close>

lemma re_lit_D: "re_lit w k s \<Longrightarrow> s = w @ drop (length w) s \<and> k (drop (length w) s)"
  by (auto simp: re_lit_def prefix_def)

lemma re_dollar_D: "re_dollar k s \<Longrightarrow> s = [] \<or> s = [newline]"
  by (simp add: re_dollar_def)

lemma strip_last: "strip l \<noteq> [] \<Longrightarrow> \<not> isspace (last (strip l))"
proof -
  assume ne: "strip l \<noteq> []"
  let ?xs = "dropWhile isspace (rev (dropWhile isspace l))"
  from ne have xs: "?xs \<noteq> []" by (simp add: strip_def)
  then have "\<not> isspace (hd ?xs)" by (rule hd_dropWhile)
  moreover have "last (strip l) = hd ?xs"
    using xs by (simp add: strip_def last_rev)
  ultimately show ?thesis by simp
qed

lemma isspace_newline: "isspace newline"
  by (simp add: isspace_def)

lemma strip_no_newline_end: "strip l = [] \<or> last (strip l) \<noteq> newline"
  using strip_last [of l] isspace_newline by metis

lemma kconfig_char_not_space: "kconfig_char c \<Longrightarrow> c \<noteq> CHR '' ''"
  by (auto simp: kconfig_char_def in_range_def)

lemma kconfig_char_not_eq: "kconfig_char c \<Longrightarrow> c \<noteq> CHR ''=''"
  by (auto simp: kconfig_char_def in_range_def)

lemma re_lit_E: "re_lit w k s \<Longrightarrow> \<exists>r. s = w @ r \<and> k r"
  by (auto simp: re_lit_def prefix_def)

lemma re_plus_E:
  assumes "re_plus P k s"
  shows "\<exists>a b. s = a @ b \<and> a \<noteq> [] \<and> list_all P a \<and> k b"
proof -
  from assms obtain n where n: "1 \<le> n" "n \<le> length s" "list_all P (take n s)" "k (drop n s)"
    by (blast dest: re_plus_D)
  have "s = take n s @ drop n s" by simp
  moreover from n(1,2) have "take n s \<noteq> []" by auto
  ultimately show ?thesis using n(3,4) by blast
qed

lemma opt_is_on_D:
  assumes "opt_is_on line"
  shows "CHR ''='' \<in> set line \<and> takeWhile (\<lambda>c. c \<noteq> CHR ''='') line \<noteq> []"
proof -
  let ?k = "re_lit ''='' (re_star re_dot (re_dollar re_end))"
  from assms obtain rest where l: "line = ''CONFIG_'' @ rest" and p: "re_plus kconfig_char ?k rest"
    unfolding opt_is_on_def by (blast dest: re_lit_E)
  from p obtain a b where ab: "rest = a @ b" and "?k b"
    by (blast dest: re_plus_E)
  then obtain r where "b = ''='' @ r"
    by (blast dest: re_lit_E)
  with l ab have "CHR ''='' \<in> set line" by simp
  moreover from l have "takeWhile (\<lambda>c. c \<noteq> CHR ''='') line \<noteq> []" by simp
  ultimately show ?thesis by simp
qed

lemma opt_is_off_D:
  assumes "opt_is_off line" and "line = [] \<or> last line \<noteq> newline"
  shows "\<exists>key. line = ''# CONFIG_'' @ key @ '' is not set'' \<and> list_all kconfig_char key"
proof -
  let ?k = "re_lit '' is not set'' (re_dollar re_end)"
  from assms(1) obtain rest where l: "line = ''# CONFIG_'' @ rest" and p: "re_plus kconfig_char ?k rest"
    unfolding opt_is_off_def by (blast dest: re_lit_E)
  from p obtain a b where ab: "rest = a @ b" and a: "list_all kconfig_char a" and k: "?k b"
    by (blast dest: re_plus_E)
  from k obtain e where b: "b = '' is not set'' @ e" and e: "re_dollar re_end e"
    by (blast dest: re_lit_E)
  from e have "e = [] \<or> e = [newline]" by (rule re_dollar_D)
  then have "e = []"
  proof
    assume "e = [newline]"
    with l ab b have "line = (''# CONFIG_'' @ a @ '' is not set'') @ [newline]" by simp
    then have "last line = newline \<and> line \<noteq> []"
      by (metis last_snoc snoc_eq_iff_butlast)
    with assms(2) show ?thesis by simp
  qed simp
  with l ab b have "line = ''# CONFIG_'' @ a @ '' is not set''" by simp
  with a show ?thesis by blast
qed

lemma kconfig_line_on:
  assumes "opt_is_on line"
  shows "kconfig_bad_enabled line \<longrightarrow> (\<exists>msg. snd (kconfig_line line) = Inl (SystemExit (Msg msg)))"
    and "\<not> kconfig_bad_enabled line \<longrightarrow>
      (\<exists>n v. kconfig_name line = Some n \<and> n \<noteq> [] \<and> snd (kconfig_line line) = Inr (Some n, Some v))"
proof -
  from assms have eq: "CHR ''='' \<in> set line" and ne: "takeWhile (\<lambda>c. c \<noteq> CHR ''='') line \<noteq> []"
    by (simp_all add: opt_is_on_D)
  from eq have sp: "split1 CHR ''='' line
      = [takeWhile (\<lambda>c. c \<noteq> CHR ''='') line, tl (dropWhile (\<lambda>c. c \<noteq> CHR ''='') line)]"
    by (simp add: split1_def)
  show "kconfig_bad_enabled line \<longrightarrow> (\<exists>msg. snd (kconfig_line line) = Inl (SystemExit (Msg msg)))"
    using assms sp by (simp add: kconfig_line_def kconfig_bad_enabled_def)
  show "\<not> kconfig_bad_enabled line \<longrightarrow>
      (\<exists>n v. kconfig_name line = Some n \<and> n \<noteq> [] \<and> snd (kconfig_line line) = Inr (Some n, Some v))"
    using assms sp ne by (simp add: kconfig_line_def kconfig_bad_enabled_def kconfig_name_def snd_bind)
qed

lemma kconfig_line_off:
  assumes "\<not> opt_is_on line" and "opt_is_off line" and "line = [] \<or> last line \<noteq> newline"
  shows "\<exists>n v. kconfig_name line = Some n \<and> n \<noteq> [] \<and> snd (kconfig_line line) = Inr (Some n, Some v)"
proof -
  from assms(2,3) obtain key where l: "line = ''# CONFIG_'' @ key @ '' is not set''"
    and key: "list_all kconfig_char key"
    by (blast dest: opt_is_off_D)
  let ?n = "''CONFIG_'' @ key"
  from l have d: "drop 2 line = ?n @ CHR '' '' # ''is not set''" by simp
  from key have nosp: "CHR '' '' \<notin> set ?n"
    by (auto simp: list_all_iff dest: kconfig_char_not_space)
  have tw: "takeWhile (\<lambda>c. c \<noteq> CHR '' '') (drop 2 line) = ?n"
    unfolding d using nosp by (rule takeWhile_at_sep)
  have dw: "dropWhile (\<lambda>c. c \<noteq> CHR '' '') (drop 2 line) = CHR '' '' # ''is not set''"
    unfolding d using nosp by (rule dropWhile_at_sep)
  have "CHR '' '' \<in> set (drop 2 line)"
    unfolding d by simp
  then have sp: "split1 CHR '' '' (drop 2 line) = [?n, ''is not set'']"
    by (simp add: split1_def tw dw)
  have "kconfig_name line = Some ?n"
    using assms(1,2) by (simp add: kconfig_name_def tw)
  moreover have "snd (kconfig_line line) = Inr (Some ?n, Some ''is not set'')"
    using assms(1,2) sp by (simp add: kconfig_line_def)
  ultimately show ?thesis by simp
qed

lemma kconfig_line_other:
  assumes "\<not> opt_is_on line" and "\<not> opt_is_off line"
  shows "kconfig_malformed line \<longrightarrow> (\<exists>msg. snd (kconfig_line line) = Inl (SystemExit (Msg msg)))"
    and "\<not> kconfig_malformed line \<longrightarrow> kconfig_name line = None \<and> snd (kconfig_line line) = Inr (None, None)"
  using assms by (auto simp: kconfig_line_def kconfig_malformed_def kconfig_name_def)

text \<open>The three outcomes of the first part of the loop body, on a stripped line.\<close>

lemma kconfig_line_cases:
  assumes "line = [] \<or> last line \<noteq> newline"
  shows "(kconfig_malformed line \<or> kconfig_bad_enabled line)
           \<and> (\<exists>msg. snd (kconfig_line line) = Inl (SystemExit (Msg msg)))
       \<or> \<not> kconfig_malformed line \<and> \<not> kconfig_bad_enabled line
           \<and> kconfig_name line = None \<and> snd (kconfig_line line) = Inr (None, None)
       \<or> \<not> kconfig_malformed line \<and> \<not> kconfig_bad_enabled line
           \<and> (\<exists>n v. kconfig_name line = Some n \<and> n \<noteq> [] \<and> snd (kconfig_line line) = Inr (Some n, Some v))"
proof (cases "opt_is_on line")
  case True
  then have "\<not> kconfig_malformed line" by (simp add: kconfig_malformed_def)
  with kconfig_line_on [OF True] show ?thesis by blast
next
  case on: False
  then have nb: "\<not> kconfig_bad_enabled line" by (simp add: kconfig_bad_enabled_def)
  show ?thesis
  proof (cases "opt_is_off line")
    case True
    then have "\<not> kconfig_malformed line" by (simp add: kconfig_malformed_def)
    with nb kconfig_line_off [OF on True assms] show ?thesis by blast
  next
    case False
    with nb kconfig_line_other [OF on False] show ?thesis by blast
  qed
qed

lemma kconfig_rejected_Nil: "\<not> kconfig_rejected parsed_options []"
  by (simp add: kconfig_rejected_def kconfig_names_def map_filter_simps)

lemma kconfig_rejected_skip:
  assumes "\<not> kconfig_malformed (strip l)" and "\<not> kconfig_bad_enabled (strip l)"
    and "kconfig_name (strip l) = None"
  shows "kconfig_rejected parsed_options (l # ls) = kconfig_rejected parsed_options ls"
  using assms by (simp add: kconfig_rejected_def kconfig_names_def map_filter_simps)

lemma kconfig_rejected_record:
  assumes "\<not> kconfig_malformed (strip l)" and "\<not> kconfig_bad_enabled (strip l)"
    and "kconfig_name (strip l) = Some n" and "parsed_options n = None"
  shows "kconfig_rejected parsed_options (l # ls) = kconfig_rejected (parsed_options(n \<mapsto> v)) ls"
  using assms by (auto simp: kconfig_rejected_def kconfig_names_def map_filter_simps)

lemma kconfig_rejected_repeat:
  assumes "kconfig_name (strip l) = Some n" and "parsed_options n \<noteq> None"
  shows "kconfig_rejected parsed_options (l # ls)"
  using assms by (simp add: kconfig_rejected_def kconfig_names_def map_filter_simps)

lemma kconfig_rejected_bad:
  assumes "kconfig_malformed (strip l) \<or> kconfig_bad_enabled (strip l)"
  shows "kconfig_rejected parsed_options (l # ls)"
  using assms by (auto simp: kconfig_rejected_def)

lemma kconfig_lines_exit:
  assumes "snd (kconfig_line (strip l)) = Inl x"
  shows "snd (kconfig_lines parsed_options (l # ls)) = Inl x"
  using assms by (simp add: snd_bind)

lemma kconfig_lines_skip:
  assumes "snd (kconfig_line (strip l)) = Inr (None, None)"
  shows "snd (kconfig_lines parsed_options (l # ls)) = snd (kconfig_lines parsed_options ls)"
  using assms by (simp add: snd_bind truthy_def)

lemma kconfig_lines_repeat:
  assumes "snd (kconfig_line (strip l)) = Inr (Some n, Some v)" and "parsed_options n \<noteq> None"
  shows "\<exists>msg. snd (kconfig_lines parsed_options (l # ls)) = Inl (SystemExit (Msg msg))"
  using assms by (simp add: snd_bind)

lemma kconfig_lines_record:
  assumes "snd (kconfig_line (strip l)) = Inr (Some n, Some v)" and "parsed_options n = None" and "n \<noteq> []"
  shows "snd (kconfig_lines parsed_options (l # ls)) = snd (kconfig_lines (parsed_options(n \<mapsto> v)) ls)"
  using assms by (simp add: snd_bind truthy_def)

lemma kconfig_outcome_same:
  assumes "kconfig_rejected p ls = kconfig_rejected p' ls'"
    and "snd (kconfig_lines p ls) = snd (kconfig_lines p' ls')"
    and "kconfig_outcome p' ls'"
  shows "kconfig_outcome p ls"
  using assms unfolding kconfig_outcome_def by (simp only:)

lemma kconfig_lines_outcome: "kconfig_outcome parsed_options ls"
proof (induction ls arbitrary: parsed_options)
  case Nil
  show ?case
    by (simp add: kconfig_outcome_def kconfig_rejected_Nil)
next
  case (Cons l ls)
  let ?line = "strip l"
  have nl: "?line = [] \<or> last ?line \<noteq> newline"
    by (rule strip_no_newline_end)
  consider
    (bad) msg where "kconfig_malformed ?line \<or> kconfig_bad_enabled ?line"
      "snd (kconfig_line ?line) = Inl (SystemExit (Msg msg))"
  | (skip) "\<not> kconfig_malformed ?line" "\<not> kconfig_bad_enabled ?line"
      "kconfig_name ?line = None" "snd (kconfig_line ?line) = Inr (None, None)"
  | (opt) n v where "\<not> kconfig_malformed ?line" "\<not> kconfig_bad_enabled ?line"
      "kconfig_name ?line = Some n" "n \<noteq> []" "snd (kconfig_line ?line) = Inr (Some n, Some v)"
    using kconfig_line_cases [OF nl] by (elim disjE conjE exE) blast+
  then show ?case
  proof cases
    case bad
    from bad(1) have "kconfig_rejected parsed_options (l # ls)"
      by (rule kconfig_rejected_bad)
    moreover from bad(2) have "snd (kconfig_lines parsed_options (l # ls)) = Inl (SystemExit (Msg msg))"
      by (rule kconfig_lines_exit)
    ultimately show ?thesis
      by (simp add: kconfig_outcome_def del: kconfig_lines.simps)
  next
    case skip
    have "kconfig_rejected parsed_options (l # ls) = kconfig_rejected parsed_options ls"
      using skip(1,2,3) by (rule kconfig_rejected_skip)
    moreover have "snd (kconfig_lines parsed_options (l # ls)) = snd (kconfig_lines parsed_options ls)"
      using skip(4) by (rule kconfig_lines_skip)
    ultimately show ?thesis
      using Cons.IH [of parsed_options] by (rule kconfig_outcome_same)
  next
    case opt
    show ?thesis
    proof (cases "parsed_options n = None")
      case True
      have "kconfig_rejected parsed_options (l # ls) = kconfig_rejected (parsed_options(n \<mapsto> v)) ls"
        using opt(1,2,3) True by (rule kconfig_rejected_record)
      moreover have "snd (kconfig_lines parsed_options (l # ls))
          = snd (kconfig_lines (parsed_options(n \<mapsto> v)) ls)"
        using opt(5) True opt(4) by (rule kconfig_lines_record)
      ultimately show ?thesis
        using Cons.IH [of "parsed_options(n \<mapsto> v)"] by (rule kconfig_outcome_same)
    next
      case False
      have "kconfig_rejected parsed_options (l # ls)"
        using opt(3) False by (rule kconfig_rejected_repeat)
      moreover have "\<exists>msg. snd (kconfig_lines parsed_options (l # ls)) = Inl (SystemExit (Msg msg))"
        using opt(5) False by (rule kconfig_lines_repeat)
      ultimately show ?thesis
        by (simp add: kconfig_outcome_def del: kconfig_lines.simps)
    qed
  qed
qed

text \<open>
  C5. \<^verbatim>\<open>parse_kconfig_file\<close> rejects malformed input instead of recording it: when some
  stripped line is not empty, does not start with \<^verbatim>\<open>#\<close> and matches neither the enabled
  nor the disabled pattern, or some enabled option has the value \<^verbatim>\<open>is not set\<close>, or an
  option name occurs a second time or is already in the mapping, the parser ends the
  program with an error message and returns no mapping. In every other case it returns
  a mapping.
\<close>

theorem parse_kconfig_file_rejects:
  assumes "fs fname = Some f"
  shows "(kconfig_rejected parsed_options (readlines (contents f))
          \<longrightarrow> (\<exists>msg. snd (parse_kconfig_file fs mode parsed_options fname) = Inl (SystemExit (Msg msg))))
       \<and> (\<not> kconfig_rejected parsed_options (readlines (contents f))
          \<longrightarrow> (\<exists>m. snd (parse_kconfig_file fs mode parsed_options fname) = Inr m))"
proof -
  have "parse_kconfig_file fs mode parsed_options fname
      = kconfig_lines parsed_options (readlines (contents f))"
    using assms by (simp add: parse_kconfig_file_def open_file_def)
  with kconfig_lines_outcome [of parsed_options "readlines (contents f)"] show ?thesis
    by (simp add: kconfig_outcome_def)
qed

theorem parse_kconfig_file_rejects_witness:
  "(\<exists>msg. snd (parse_kconfig_file kconfig_example None Map.empty ''stray'') = Inl (SystemExit (Msg msg)))
   \<and> (\<exists>msg. snd (parse_kconfig_file kconfig_example None Map.empty ''bad'') = Inl (SystemExit (Msg msg)))
   \<and> (\<exists>msg. snd (parse_kconfig_file kconfig_example None Map.empty ''twice'') = Inl (SystemExit (Msg msg)))
   \<and> (\<exists>m. snd (parse_kconfig_file kconfig_example None Map.empty ''good'') = Inr m)"
proof -
  have stray: "kconfig_example ''stray'' = Some kconfig_stray_file"
    and bad: "kconfig_example ''bad'' = Some kconfig_bad_file"
    and twice: "kconfig_example ''twice'' = Some kconfig_twice_file"
    and good: "kconfig_example ''good'' = Some kconfig_good_file"
    by (simp_all add: kconfig_example_def)
  have r1: "kconfig_rejected Map.empty (readlines (contents kconfig_stray_file))"
    by code_simp
  have r2: "kconfig_rejected Map.empty (readlines (contents kconfig_bad_file))"
    by code_simp
  have r3: "kconfig_rejected Map.empty (readlines (contents kconfig_twice_file))"
    by code_simp
  have r4: "\<not> kconfig_rejected Map.empty (readlines (contents kconfig_good_file))"
    by code_simp
  from parse_kconfig_file_rejects [of kconfig_example "''stray''" kconfig_stray_file Map.empty None, OF stray] r1
  have "\<exists>msg. snd (parse_kconfig_file kconfig_example None Map.empty ''stray'') = Inl (SystemExit (Msg msg))"
    by simp
  moreover
  from parse_kconfig_file_rejects [of kconfig_example "''bad''" kconfig_bad_file Map.empty None, OF bad] r2
  have "\<exists>msg. snd (parse_kconfig_file kconfig_example None Map.empty ''bad'') = Inl (SystemExit (Msg msg))"
    by simp
  moreover
  from parse_kconfig_file_rejects [of kconfig_example "''twice''" kconfig_twice_file Map.empty None, OF twice] r3
  have "\<exists>msg. snd (parse_kconfig_file kconfig_example None Map.empty ''twice'') = Inl (SystemExit (Msg msg))"
    by simp
  moreover
  from parse_kconfig_file_rejects [of kconfig_example "''good''" kconfig_good_file Map.empty None, OF good] r4
  have "\<exists>m. snd (parse_kconfig_file kconfig_example None Map.empty ''good'') = Inr m"
    by simp
  ultimately show ?thesis by blast
qed

section \<open>The microarchitecture of a Kconfig file\<close>

lemma arch_hits_Cons:
  "arch_hits (line # ls) = (case arch_of_line line of None \<Rightarrow> arch_hits ls | Some a \<Rightarrow> a # arch_hits ls)"
  unfolding arch_hits_def by simp

lemma arch_lines_verdict: "arch_lines arch ls = arch_verdict (arch_seen arch @ arch_hits ls)"
proof (induction ls arbitrary: arch)
  case Nil
  show ?case
    by (cases arch) (simp_all add: arch_verdict_def arch_seen_def arch_hits_def)
next
  case (Cons line ls)
  show ?case
  proof (cases "arch_of_line line")
    case None
    then have "arch_lines arch (line # ls) = arch_lines arch ls"
      by (auto simp: arch_of_line_def split: option.splits if_splits)
    with None Cons.IH [of arch] show ?thesis
      by (simp add: arch_hits_Cons del: arch_lines.simps)
  next
    case (Some a)
    then have s: "re_search arch_pattern line = Some a" and sup: "a \<in> set SUPPORTED_ARCHS"
      by (auto simp: arch_of_line_def split: option.splits if_splits)
    show ?thesis
    proof (cases arch)
      case None
      with s sup have "arch_lines arch (line # ls) = arch_lines (Some a) ls"
        by simp
      with None Some Cons.IH [of "Some a"] show ?thesis
        by (simp add: arch_hits_Cons arch_seen_def del: arch_lines.simps)
    next
      case (Some b)
      with s sup have "arch_lines arch (line # ls) = (None, ''detected more than one microarchitecture in kconfig'')"
        by simp
      with Some \<open>arch_of_line line = Some a\<close> show ?thesis
        by (simp add: arch_hits_Cons arch_seen_def arch_verdict_def del: arch_lines.simps)
    qed
  qed
qed

lemma arch_of_line_supported: "arch_of_line line = Some a \<Longrightarrow> a \<in> set SUPPORTED_ARCHS"
  by (auto simp: arch_of_line_def split: option.splits if_splits)

lemma arch_hits_supported: "set (arch_hits ls) \<subseteq> set SUPPORTED_ARCHS"
proof (induction ls)
  case Nil
  show ?case by (simp add: arch_hits_def)
next
  case (Cons line ls)
  then show ?case
    by (cases "arch_of_line line") (auto simp: arch_hits_Cons dest: arch_of_line_supported)
qed

text \<open>
  C9, as the code has it. \<^verbatim>\<open>detect_arch_kconfig\<close> returns an architecture exactly when
  one line of the file names a supported architecture, counting lines and not distinct
  names: with one such line it returns that line's architecture and \<^verbatim>\<open>OK\<close>; with two or
  more such lines, also when they name the same architecture, it returns \<^verbatim>\<open>None\<close> and
  \<^verbatim>\<open>detected more than one microarchitecture in kconfig\<close>; with none it returns \<^verbatim>\<open>None\<close>
  and \<^verbatim>\<open>failed to detect microarchitecture in kconfig\<close>.
\<close>

theorem detect_arch_kconfig_counts_lines:
  assumes "fs fname = Some f"
  shows "(\<forall>a. arch_hits (readlines (contents f)) = [a]
            \<longrightarrow> detect_arch_kconfig fs fname = Inr (Some a, ''OK'') \<and> a \<in> set SUPPORTED_ARCHS)
       \<and> (length (arch_hits (readlines (contents f))) \<ge> 2
            \<longrightarrow> detect_arch_kconfig fs fname
                = Inr (None, ''detected more than one microarchitecture in kconfig''))
       \<and> (arch_hits (readlines (contents f)) = []
            \<longrightarrow> detect_arch_kconfig fs fname
                = Inr (None, ''failed to detect microarchitecture in kconfig''))
       \<and> ((\<exists>a msg. detect_arch_kconfig fs fname = Inr (Some a, msg))
            \<longleftrightarrow> length (arch_hits (readlines (contents f))) = 1)"
proof -
  let ?hits = "arch_hits (readlines (contents f))"
  have d: "detect_arch_kconfig fs fname = Inr (arch_verdict ?hits)"
    using assms by (simp add: detect_arch_kconfig_def open_file_def arch_lines_verdict arch_seen_def)
  have one: "\<forall>a. ?hits = [a] \<longrightarrow> detect_arch_kconfig fs fname = Inr (Some a, ''OK'') \<and> a \<in> set SUPPORTED_ARCHS"
  proof (intro allI impI)
    fix a assume h: "?hits = [a]"
    with arch_hits_supported [of "readlines (contents f)"] have "a \<in> set SUPPORTED_ARCHS"
      by simp
    with d h show "detect_arch_kconfig fs fname = Inr (Some a, ''OK'') \<and> a \<in> set SUPPORTED_ARCHS"
      by (simp add: arch_verdict_def)
  qed
  have more: "length ?hits \<ge> 2 \<longrightarrow> detect_arch_kconfig fs fname
      = Inr (None, ''detected more than one microarchitecture in kconfig'')"
    using d by (cases ?hits rule: list.exhaust; simp add: arch_verdict_def split: list.splits)
  have none: "?hits = [] \<longrightarrow> detect_arch_kconfig fs fname
      = Inr (None, ''failed to detect microarchitecture in kconfig'')"
    using d by (simp add: arch_verdict_def)
  have iff: "(\<exists>a msg. detect_arch_kconfig fs fname = Inr (Some a, msg)) \<longleftrightarrow> length ?hits = 1"
    using d by (auto simp: arch_verdict_def length_Suc_conv split: list.splits)
  from one more none iff show ?thesis
    by (intro conjI)
qed

theorem detect_arch_kconfig_counts_lines_witness:
  "detect_arch_kconfig arch_example ''one'' = Inr (Some ''X86_64'', ''OK'')
   \<and> detect_arch_kconfig arch_example ''two''
       = Inr (None, ''detected more than one microarchitecture in kconfig'')
   \<and> detect_arch_kconfig arch_example ''none''
       = Inr (None, ''failed to detect microarchitecture in kconfig'')"
proof -
  have one: "arch_example ''one'' = Some arch_one_file"
    and two: "arch_example ''two'' = Some arch_two_file"
    and none: "arch_example ''none'' = Some arch_none_file"
    by (simp_all add: arch_example_def)
  have h1: "arch_hits (readlines (contents arch_one_file)) = [''X86_64'']"
    by code_simp
  have h2: "length (arch_hits (readlines (contents arch_two_file))) \<ge> 2"
    by code_simp
  have h3: "arch_hits (readlines (contents arch_none_file)) = []"
    by code_simp
  from detect_arch_kconfig_counts_lines [of arch_example "''one''" arch_one_file, OF one] h1
  have "detect_arch_kconfig arch_example ''one'' = Inr (Some ''X86_64'', ''OK'')"
    by blast
  moreover
  from detect_arch_kconfig_counts_lines [of arch_example "''two''" arch_two_file, OF two] h2
  have "detect_arch_kconfig arch_example ''two''
      = Inr (None, ''detected more than one microarchitecture in kconfig'')"
    by blast
  moreover
  from detect_arch_kconfig_counts_lines [of arch_example "''none''" arch_none_file, OF none] h3
  have "detect_arch_kconfig arch_example ''none''
      = Inr (None, ''failed to detect microarchitecture in kconfig'')"
    by blast
  ultimately show ?thesis by blast
qed

text \<open>
  C9 as stated fails: in a file with the line \<^verbatim>\<open>CONFIG_ARM=y\<close> twice, exactly one of the
  four supported options appears, and the result is \<^verbatim>\<open>None\<close>.
\<close>

theorem detect_arch_kconfig_same_option_twice:
  "archs_appearing (readlines (contents arch_twice_file)) = {''ARM''}
   \<and> detect_arch_kconfig arch_example ''twice''
       = Inr (None, ''detected more than one microarchitecture in kconfig'')"
proof -
  have "arch_hits (readlines (contents arch_twice_file)) = [''ARM'', ''ARM'']"
    by code_simp
  then have "archs_appearing (readlines (contents arch_twice_file)) = {''ARM''}"
    by (simp add: archs_appearing_def)
  moreover have "detect_arch_kconfig arch_example ''twice''
       = Inr (None, ''detected more than one microarchitecture in kconfig'')"
    by code_simp
  ultimately show ?thesis by simp
qed

section \<open>The kernel version comes from the first version line\<close>

lemma hd_split1: "hd (split1 sep s) = takeWhile (\<lambda>c. c \<noteq> sep) s"
  by (simp add: split1_def takeWhile_no_sep)

lemma version_lines_find:
  "version_lines ls =
     (case find ver_pattern ls of
        None \<Rightarrow> Inr (None, ''no kernel version detected'')
      | Some l \<Rightarrow> version_of_line l)"
  by (induction ls) simp_all

lemma version_of_line_short:
  "length (split_ws (strip l)) \<le> 2 \<Longrightarrow> version_of_line l = Inl IndexError"
  by (simp add: version_of_line_def Let_def)

lemma version_of_line_parses:
  assumes "length (split_ws (strip l)) \<ge> 3" and "version_parses l"
  shows "version_of_line l = Inr (Some (map int_of_str (version_numbers l)), ''OK'')"
  using assms
  by (simp add: version_of_line_def Let_def version_parses_def version_numbers_def version_field_def hd_split1)

lemma version_of_line_fails:
  assumes "length (split_ws (strip l)) \<ge> 3" and "\<not> version_parses l"
  shows "version_of_line l
    = Inr (None, ''failed to parse the version '' @ [CHR 0x22] @ version_field l @ [CHR 0x22])"
  using assms
  by (auto simp: version_of_line_def Let_def version_parses_def version_numbers_def version_field_def hd_split1)

lemma version_of_line_tuple:
  "(\<exists>t msg. version_of_line l = Inr (Some t, msg)) \<longleftrightarrow> length (split_ws (strip l)) \<ge> 3 \<and> version_parses l"
proof (cases "length (split_ws (strip l)) \<ge> 3")
  case True
  then show ?thesis
    by (cases "version_parses l") (simp_all add: version_of_line_parses version_of_line_fails)
next
  case False
  then have "version_of_line l = Inl IndexError"
    by (simp add: version_of_line_short)
  with False show ?thesis by simp
qed

text \<open>
  C4, as the code has it. The first line that the version pattern matches decides. 
  \<^verbatim>\<open>detect_kernel_version\<close> returns a tuple exactly when that line has a third field
  that parses; the tuple is then the components of the field as integers, at least
  three of them. When no line matches, it returns \<^verbatim>\<open>None\<close> and
  \<^verbatim>\<open>no kernel version detected\<close>; when the first matching line has a third field that
  does not parse, it returns \<^verbatim>\<open>None\<close> and \<^verbatim>\<open>failed to parse the version\<close> with the field,
  a different message.
\<close>

theorem detect_kernel_version_first_line:
  assumes "fs fname = Some f"
  shows "((\<exists>t msg. detect_kernel_version fs fname = Inr (Some t, msg))
            \<longleftrightarrow> (\<exists>l. find ver_pattern (readlines (contents f)) = Some l \<and> gives_version l))
       \<and> (\<forall>l. find ver_pattern (readlines (contents f)) = Some l \<and> gives_version l
            \<longrightarrow> detect_kernel_version fs fname = Inr (Some (map int_of_str (version_numbers l)), ''OK'')
              \<and> length (map int_of_str (version_numbers l)) \<ge> 3)
       \<and> (find ver_pattern (readlines (contents f)) = None
            \<longrightarrow> detect_kernel_version fs fname = Inr (None, ''no kernel version detected''))
       \<and> (\<forall>l. find ver_pattern (readlines (contents f)) = Some l
              \<and> length (split_ws (strip l)) \<ge> 3 \<and> \<not> version_parses l
            \<longrightarrow> detect_kernel_version fs fname
                = Inr (None, ''failed to parse the version '' @ [CHR 0x22] @ version_field l @ [CHR 0x22]))
       \<and> (\<forall>field. ''no kernel version detected''
              \<noteq> ''failed to parse the version '' @ [CHR 0x22] @ field @ [CHR 0x22])"
proof -
  let ?ls = "readlines (contents f)"
  let ?d = "detect_kernel_version fs fname"
  have d: "?d = (case find ver_pattern ?ls of
        None \<Rightarrow> Inr (None, ''no kernel version detected'')
      | Some l \<Rightarrow> version_of_line l)"
    using assms by (simp add: detect_kernel_version_def open_file_def version_lines_find)
  have pat: "\<And>l. find ver_pattern ?ls = Some l \<Longrightarrow> ver_pattern l"
    by (auto simp: find_Some_iff)
  have a: "(\<exists>t msg. ?d = Inr (Some t, msg)) \<longleftrightarrow> (\<exists>l. find ver_pattern ?ls = Some l \<and> gives_version l)"
  proof (cases "find ver_pattern ?ls")
    case None
    with d show ?thesis by simp
  next
    case (Some l)
    with d have "?d = version_of_line l" by simp
    with Some pat [OF Some] version_of_line_tuple [of l] show ?thesis
      by (simp add: gives_version_def)
  qed
  have b: "\<forall>l. find ver_pattern ?ls = Some l \<and> gives_version l
      \<longrightarrow> ?d = Inr (Some (map int_of_str (version_numbers l)), ''OK'')
        \<and> length (map int_of_str (version_numbers l)) \<ge> 3"
    using d by (auto simp: gives_version_def version_of_line_parses version_parses_def)
  have c: "find ver_pattern ?ls = None \<longrightarrow> ?d = Inr (None, ''no kernel version detected'')"
    using d by simp
  have e: "\<forall>l. find ver_pattern ?ls = Some l \<and> length (split_ws (strip l)) \<ge> 3 \<and> \<not> version_parses l
      \<longrightarrow> ?d = Inr (None, ''failed to parse the version '' @ [CHR 0x22] @ version_field l @ [CHR 0x22])"
    using d by (auto simp: version_of_line_fails)
  have g: "\<forall>field. ''no kernel version detected''
      \<noteq> ''failed to parse the version '' @ [CHR 0x22] @ field @ [CHR 0x22]"
    by simp
  from a b c e g show ?thesis
    by (intro conjI)
qed

theorem detect_kernel_version_first_line_witness:
  "detect_kernel_version version_example ''config'' = Inr (Some [5, 10, 0], ''OK'')
   \<and> detect_kernel_version version_example ''proc''
       = Inr (None, ''failed to parse the version '' @ [CHR 0x22] @ ''6.1'' @ [CHR 0x22])
   \<and> detect_kernel_version version_example ''plain'' = Inr (None, ''no kernel version detected'')"
proof -
  have config: "version_example ''config'' = Some version_config_file"
    and proc: "version_example ''proc'' = Some version_proc_file"
    and plain: "version_example ''plain'' = Some version_plain_file"
    by (simp_all add: version_example_def)
  let ?l1 = "''# Linux/x86 5.10.0-7 Kernel Configuration\<newline>''"
  let ?l2 = "''Linux version 6.1 (gcc)\<newline>''"
  have f1: "find ver_pattern (readlines (contents version_config_file)) = Some ?l1"
    by code_simp
  have g1: "gives_version ?l1"
    by code_simp
  have n1: "map int_of_str (version_numbers ?l1) = [5, 10, 0]"
    by code_simp
  have f2: "find ver_pattern (readlines (contents version_proc_file)) = Some ?l2"
    by code_simp
  have g2: "length (split_ws (strip ?l2)) \<ge> 3 \<and> \<not> version_parses ?l2"
    by code_simp
  have v2: "version_field ?l2 = ''6.1''"
    by code_simp
  have f3: "find ver_pattern (readlines (contents version_plain_file)) = None"
    by code_simp
  from detect_kernel_version_first_line [of version_example "''config''" version_config_file, OF config]
    f1 g1
  have "detect_kernel_version version_example ''config''
      = Inr (Some (map int_of_str (version_numbers ?l1)), ''OK'')"
    by blast
  then have r1: "detect_kernel_version version_example ''config'' = Inr (Some [5, 10, 0], ''OK'')"
    by (simp only: n1)
  from detect_kernel_version_first_line [of version_example "''proc''" version_proc_file, OF proc]
    f2 g2
  have "detect_kernel_version version_example ''proc''
       = Inr (None, ''failed to parse the version '' @ [CHR 0x22] @ version_field ?l2 @ [CHR 0x22])"
    by blast
  then have r2: "detect_kernel_version version_example ''proc''
       = Inr (None, ''failed to parse the version '' @ [CHR 0x22] @ ''6.1'' @ [CHR 0x22])"
    by (simp only: v2)
  from detect_kernel_version_first_line [of version_example "''plain''" version_plain_file, OF plain]
    f3
  have r3: "detect_kernel_version version_example ''plain'' = Inr (None, ''no kernel version detected'')"
    by blast
  from r1 r2 r3 show ?thesis
    by (intro conjI)
qed

text \<open>
  C4 as stated fails: the file below contains a line that the pattern matches and whose
  third field is \<^verbatim>\<open>5.10.0\<close>, but an earlier matching line does not parse, and the result
  is \<^verbatim>\<open>None\<close>.
\<close>

theorem detect_kernel_version_later_line_ignored:
  "(\<exists>l \<in> set (readlines (contents version_late_file)). gives_version l)
   \<and> detect_kernel_version version_example ''late''
       = Inr (None, ''failed to parse the version '' @ [CHR 0x22] @ ''next'' @ [CHR 0x22])"
proof -
  have "gives_version ''Linux version 5.10.0 x\<newline>''"
    by code_simp
  moreover have "''Linux version 5.10.0 x\<newline>'' \<in> set (readlines (contents version_late_file))"
    by code_simp
  ultimately have "\<exists>l \<in> set (readlines (contents version_late_file)). gives_version l"
    by blast
  moreover have "detect_kernel_version version_example ''late''
       = Inr (None, ''failed to parse the version '' @ [CHR 0x22] @ ''next'' @ [CHR 0x22])"
    by code_simp
  ultimately show ?thesis by simp
qed

text \<open>
  A line that the pattern matches and that has fewer than three fields ends the
  function with an \<^verbatim>\<open>IndexError\<close>, at \<^verbatim>\<open>parts[2]\<close>.
\<close>

lemma detect_kernel_version_short_line:
  "detect_kernel_version version_example ''short'' = Inl IndexError"
  by code_simp

section \<open>The report\<close>

lemma fst_bind_emit: "fst (bind (emit es) k) = es @ fst (k ())"
  by (simp add: fst_bind)

lemma snd_bind_emit: "snd (bind (emit es) k) = snd (k ())"
  by (simp add: snd_bind)

lemma printed_checks_append: "printed_checks (xs @ ys) = printed_checks xs @ printed_checks ys"
  by (induction xs rule: printed_checks.induct) simp_all

lemma printed_checks_table_row: "printed_checks (table_row mode with_results sep opt) = [opt]"
  by (simp add: table_row_def)

lemma has_verdict_cases:
  "has_verdict opt \<longleftrightarrow> truthy (result opt)
     \<and> (startswith (the (result opt)) ''OK'' \<or> startswith (the (result opt)) ''FAIL'')"
  by (cases "result opt") (auto simp: has_verdict_def is_ok_def is_fail_def truthy_def startswith_def)

lemma is_ok_cases: "is_ok opt \<longleftrightarrow> truthy (result opt) \<and> startswith (the (result opt)) ''OK''"
  by (cases "result opt") (auto simp: is_ok_def truthy_def startswith_def)

lemma is_fail_cases:
  "is_fail opt \<longleftrightarrow> truthy (result opt) \<and> \<not> startswith (the (result opt)) ''OK''
     \<and> startswith (the (result opt)) ''FAIL''"
  by (cases "result opt") (auto simp: is_fail_def truthy_def startswith_def)

lemma table_rows_bad:
  assumes "\<not> has_verdict opt"
  shows "fst (table_rows mode True sep (opt # rest) ok fl) = []"
    and "\<exists>msg. snd (table_rows mode True sep (opt # rest) ok fl) = Inl (AssertionError msg)"
  using assms by (auto simp: has_verdict_cases)

lemma table_rows_ok:
  assumes "is_ok opt"
  shows "table_rows mode True sep (opt # rest) ok fl =
    (if mode = Some ''show_fail'' then table_rows mode True sep rest (ok + 1) fl
     else bind (emit (table_row mode True sep opt)) (\<lambda>_. table_rows mode True sep rest (ok + 1) fl))"
  using assms by (simp add: is_ok_cases)

lemma table_rows_fail:
  assumes "is_fail opt"
  shows "table_rows mode True sep (opt # rest) ok fl =
    (if mode = Some ''show_ok'' then table_rows mode True sep rest ok (fl + 1)
     else bind (emit (table_row mode True sep opt)) (\<lambda>_. table_rows mode True sep rest ok (fl + 1)))"
  using assms by (simp add: is_fail_cases)

lemma ok_not_fail: "is_ok opt \<Longrightarrow> \<not> is_fail opt"
  by (auto simp: is_ok_def is_fail_def split: option.splits)

lemma table_rows_printed:
  "printed_checks (fst (table_rows mode True sep cl ok fl)) = filter (shown mode) (takeWhile has_verdict cl)"
proof (induction cl arbitrary: ok fl)
  case Nil
  show ?case by simp
next
  case (Cons opt rest)
  consider (bad) "\<not> has_verdict opt" | (ok) "is_ok opt" | (fail) "is_fail opt" "\<not> is_ok opt"
    by (auto simp: has_verdict_def)
  then show ?case
  proof cases
    case bad
    show ?thesis
      using bad by (simp add: table_rows_bad(1) [OF bad] del: table_rows.simps)
  next
    case ok
    then have v: "has_verdict opt" by (simp add: has_verdict_def)
    show ?thesis
      using Cons.IH [of "ok + 1" fl] v ok
      by (auto simp: table_rows_ok [OF ok] shown_def fst_bind_emit printed_checks_append
          printed_checks_table_row simp del: table_rows.simps)
  next
    case fail
    then have v: "has_verdict opt" by (simp add: has_verdict_def)
    show ?thesis
      using Cons.IH [of ok "fl + 1"] v fail
      by (auto simp: table_rows_fail [OF fail(1)] shown_def fst_bind_emit printed_checks_append
          printed_checks_table_row simp del: table_rows.simps)
  qed
qed

lemma table_rows_counts:
  assumes "list_all has_verdict cl"
  shows "snd (table_rows mode True sep cl ok fl)
    = Inr (ok + length (filter is_ok cl), fl + length (filter is_fail cl))"
  using assms
proof (induction cl arbitrary: ok fl)
  case Nil
  show ?case by simp
next
  case (Cons opt rest)
  then have v: "has_verdict opt" and r: "list_all has_verdict rest"
    by simp_all
  show ?case
  proof (cases "is_ok opt")
    case True
    with Cons.IH [OF r, of "ok + 1" fl] ok_not_fail [OF True] show ?thesis
      by (auto simp: table_rows_ok [OF True] snd_bind_emit simp del: table_rows.simps)
  next
    case False
    with v have f: "is_fail opt" by (simp add: has_verdict_def)
    with Cons.IH [OF r, of ok "fl + 1"] False show ?thesis
      by (auto simp: table_rows_fail [OF f] snd_bind_emit simp del: table_rows.simps)
  qed
qed

lemma table_rows_assert:
  assumes "\<not> list_all has_verdict cl"
  shows "\<exists>msg. snd (table_rows mode True sep cl ok fl) = Inl (AssertionError msg)"
  using assms
proof (induction cl arbitrary: ok fl)
  case Nil
  then show ?case by simp
next
  case (Cons opt rest)
  show ?case
  proof (cases "has_verdict opt")
    case False
    then show ?thesis
      by (rule table_rows_bad(2))
  next
    case True
    with Cons.prems have r: "\<not> list_all has_verdict rest" by simp
    show ?thesis
    proof (cases "is_ok opt")
      case ok: True
      with Cons.IH [OF r, of "ok + 1" fl] show ?thesis
        by (auto simp: table_rows_ok [OF ok] snd_bind_emit simp del: table_rows.simps)
    next
      case False
      with True have f: "is_fail opt" by (simp add: has_verdict_def)
      with Cons.IH [OF r, of ok "fl + 1"] show ?thesis
        by (auto simp: table_rows_fail [OF f] snd_bind_emit simp del: table_rows.simps)
    qed
  qed
qed

lemma table_rows_plain:
  "printed_checks (fst (table_rows mode False sep cl ok fl)) = cl
   \<and> snd (table_rows mode False sep cl ok fl) = Inr (ok, fl)"
  by (induction cl arbitrary: ok fl)
     (simp_all add: fst_bind_emit snd_bind_emit printed_checks_append printed_checks_table_row)

lemma verdict_count: "list_all has_verdict cl \<Longrightarrow> length (filter is_ok cl) + length (filter is_fail cl) = length cl"
  by (induction cl) (auto simp: has_verdict_def dest: ok_not_fail)

lemma printed_checks_table_head: "printed_checks (table_head with_results sep) = []"
  by (simp add: table_head_def)

lemma print_checklist_table:
  fixes dump :: "'a ChecklistObjType_scheme \<Rightarrow> bool \<Rightarrow> exn + 'j"
    and rows :: "(('a ChecklistObjType_scheme, 'j) event, nat \<times> nat) run"
  assumes "mode \<noteq> Some ''json''" and "rows = table_rows mode True 121 cl 0 0"
  shows "fst (print_checklist dump mode cl True)
      = table_head True 121 @ fst rows
        @ (case snd rows of
             Inl e \<Rightarrow> []
           | Inr (ok_count, fail_count) \<Rightarrow> [Stdout [newline], Stdout (score_line mode ok_count fail_count)])"
    and "snd (print_checklist dump mode cl True)
      = (case snd rows of Inl e \<Rightarrow> Inl e | Inr c \<Rightarrow> Inr ())"
  using assms
  by (auto simp: print_checklist_def table_head_def fst_bind snd_bind split: sum.splits prod.splits)

lemma print_checklist_printed:
  assumes "mode \<noteq> Some ''json''"
  shows "printed_checks (fst (print_checklist dump mode cl True))
      = filter (shown mode) (takeWhile has_verdict cl)"
  using assms
  by (simp add: print_checklist_table(1) [OF _ refl] printed_checks_append printed_checks_table_head
      table_rows_printed split: sum.splits prod.splits)

lemma print_checklist_completes:
  fixes dump :: "'a ChecklistObjType_scheme \<Rightarrow> bool \<Rightarrow> exn + 'j"
  assumes "mode \<noteq> Some ''json''" and "list_all has_verdict cl"
  shows "snd (print_checklist dump mode cl True) = Inr ()"
    and "last (fst (print_checklist dump mode cl True))
      = Stdout (score_line mode (length (filter is_ok cl)) (length (filter is_fail cl)))"
  using assms
  by (simp_all add: print_checklist_table [OF _ refl] table_rows_counts)

lemma print_checklist_fails:
  fixes dump :: "'a ChecklistObjType_scheme \<Rightarrow> bool \<Rightarrow> exn + 'j"
  assumes "mode \<noteq> Some ''json''" and "\<not> list_all has_verdict cl"
  shows "\<exists>msg. snd (print_checklist dump mode cl True) = Inl (AssertionError msg)"
proof -
  let ?rows = "table_rows mode True 121 cl 0 0 :: (('a ChecklistObjType_scheme, 'j) event, nat \<times> nat) run"
  from assms(2) obtain msg where "snd ?rows = Inl (AssertionError msg)"
    using table_rows_assert by blast
  then have "snd (print_checklist dump mode cl True) = Inl (AssertionError msg)"
    by (simp add: print_checklist_table(2) [OF assms(1) refl])
  then show ?thesis by blast
qed

lemma shown_show_fail: "shown (Some ''show_fail'') opt \<Longrightarrow> \<not> is_ok opt"
  by (simp add: shown_def split: if_splits)

lemma shown_show_ok: "has_verdict opt \<Longrightarrow> shown (Some ''show_ok'') opt \<Longrightarrow> \<not> is_fail opt"
  by (auto simp: shown_def has_verdict_def dest: ok_not_fail split: if_splits)

text \<open>
  C6, as the code has it. In every mode but \<^verbatim>\<open>json\<close>, \<^verbatim>\<open>print_checklist\<close> with results
  prints only checks whose result starts with \<^verbatim>\<open>OK\<close> or \<^verbatim>\<open>FAIL\<close>; mode \<^verbatim>\<open>show_fail\<close> prints
  no OK check and mode \<^verbatim>\<open>show_ok\<close> prints no FAIL check. When every check of the list has
  such a result the run completes, and whenever it completes every check of the list
  has been counted: the last thing printed is the score line with the number of OK
  checks and the number of FAIL checks of the whole list, and the two numbers add up to
  the length of the list.
\<close>

theorem print_checklist_score:
  fixes dump :: "'a ChecklistObjType_scheme \<Rightarrow> bool \<Rightarrow> exn + 'j"
  assumes "mode \<noteq> Some ''json''"
  shows "(\<forall>opt \<in> set (printed_checks (fst (print_checklist dump mode checklist True))). has_verdict opt)
    \<and> (mode = Some ''show_fail''
         \<longrightarrow> (\<forall>opt \<in> set (printed_checks (fst (print_checklist dump mode checklist True))). \<not> is_ok opt))
    \<and> (mode = Some ''show_ok''
         \<longrightarrow> (\<forall>opt \<in> set (printed_checks (fst (print_checklist dump mode checklist True))). \<not> is_fail opt))
    \<and> (list_all has_verdict checklist \<longrightarrow> snd (print_checklist dump mode checklist True) = Inr ())
    \<and> (snd (print_checklist dump mode checklist True) = Inr ()
         \<longrightarrow> list_all has_verdict checklist
           \<and> last (fst (print_checklist dump mode checklist True))
               = Stdout (score_line mode (length (filter is_ok checklist)) (length (filter is_fail checklist)))
           \<and> length (filter is_ok checklist) + length (filter is_fail checklist) = length checklist)"
proof -
  let ?out = "fst (print_checklist dump mode checklist True)"
  let ?res = "snd (print_checklist dump mode checklist True)"
  have p: "printed_checks ?out = filter (shown mode) (takeWhile has_verdict checklist)"
    using assms by (rule print_checklist_printed)
  have v: "\<forall>opt \<in> set (printed_checks ?out). has_verdict opt"
    unfolding p by (auto dest: set_takeWhileD)
  have a: "mode = Some ''show_fail'' \<longrightarrow> (\<forall>opt \<in> set (printed_checks ?out). \<not> is_ok opt)"
    unfolding p by (auto dest: shown_show_fail)
  have b: "mode = Some ''show_ok'' \<longrightarrow> (\<forall>opt \<in> set (printed_checks ?out). \<not> is_fail opt)"
    unfolding p by (auto dest: set_takeWhileD shown_show_ok)
  have c: "list_all has_verdict checklist \<longrightarrow> ?res = Inr ()"
    using assms by (simp add: print_checklist_completes(1))
  have d: "?res = Inr () \<longrightarrow> list_all has_verdict checklist
      \<and> last ?out = Stdout (score_line mode (length (filter is_ok checklist)) (length (filter is_fail checklist)))
      \<and> length (filter is_ok checklist) + length (filter is_fail checklist) = length checklist"
  proof
    assume fin: "?res = Inr ()"
    have all: "list_all has_verdict checklist"
    proof (rule ccontr)
      assume "\<not> list_all has_verdict checklist"
      with assms have "\<exists>msg. ?res = Inl (AssertionError msg)"
        by (rule print_checklist_fails)
      with fin show False by simp
    qed
    then have "last ?out = Stdout (score_line mode (length (filter is_ok checklist)) (length (filter is_fail checklist)))"
      using assms by (simp add: print_checklist_completes(2))
    with all show "list_all has_verdict checklist
      \<and> last ?out = Stdout (score_line mode (length (filter is_ok checklist)) (length (filter is_fail checklist)))
      \<and> length (filter is_ok checklist) + length (filter is_fail checklist) = length checklist"
      by (simp add: verdict_count)
  qed
  from v a b c d show ?thesis
    by (intro conjI)
qed

text \<open>
  C7, as the code has it. In every mode but \<^verbatim>\<open>json\<close>, when some check of the list has a
  result that is \<^verbatim>\<open>None\<close> or empty, or that starts with neither \<^verbatim>\<open>OK\<close> nor \<^verbatim>\<open>FAIL\<close>,
  \<^verbatim>\<open>print_checklist\<close> with results ends with an \<^verbatim>\<open>AssertionError\<close>, and that check is
  not among the checks it printed.
\<close>

theorem print_checklist_asserts:
  fixes dump :: "'a ChecklistObjType_scheme \<Rightarrow> bool \<Rightarrow> exn + 'j"
  assumes "mode \<noteq> Some ''json''" and "opt \<in> set checklist"
    and "\<not> truthy (result opt)
         \<or> \<not> startswith (the (result opt)) ''OK'' \<and> \<not> startswith (the (result opt)) ''FAIL''"
  shows "(\<exists>msg. snd (print_checklist dump mode checklist True) = Inl (AssertionError msg))
    \<and> opt \<notin> set (printed_checks (fst (print_checklist dump mode checklist True)))"
proof -
  from assms(3) have bad: "\<not> has_verdict opt"
    by (auto simp: has_verdict_cases)
  with assms(2) have "\<not> list_all has_verdict checklist"
    by (auto simp: list_all_iff)
  with assms(1) have "\<exists>msg. snd (print_checklist dump mode checklist True) = Inl (AssertionError msg)"
    by (rule print_checklist_fails)
  moreover have "opt \<notin> set (printed_checks (fst (print_checklist dump mode checklist True)))"
    using bad by (auto simp: print_checklist_printed [OF assms(1)] dest: set_takeWhileD)
  ultimately show ?thesis by simp
qed

lemmas verdict_defs = has_verdict_def is_ok_def is_fail_def startswith_def truthy_def

theorem print_checklist_score_witness:
  "snd (print_checklist example_dump (Some ''show_fail'') [check_ok, check_fail] True) = Inr ()
   \<and> last (fst (print_checklist example_dump (Some ''show_fail'') [check_ok, check_fail] True))
       = Stdout (score_line (Some ''show_fail'') 1 1)
   \<and> (1::nat) + 1 = length [check_ok, check_fail]"
proof -
  have m: "Some ''show_fail'' \<noteq> Some ''json''" by simp
  have all: "list_all has_verdict [check_ok, check_fail]"
    by (simp add: verdict_defs check_ok_def check_fail_def)
  have ok: "length (filter is_ok [check_ok, check_fail]) = 1"
    by (simp add: verdict_defs check_ok_def check_fail_def)
  have fl: "length (filter is_fail [check_ok, check_fail]) = 1"
    by (simp add: verdict_defs check_ok_def check_fail_def)
  from print_checklist_score [of "Some ''show_fail''" example_dump "[check_ok, check_fail]", OF m] all
  have "snd (print_checklist example_dump (Some ''show_fail'') [check_ok, check_fail] True) = Inr ()
    \<and> last (fst (print_checklist example_dump (Some ''show_fail'') [check_ok, check_fail] True))
       = Stdout (score_line (Some ''show_fail'') (length (filter is_ok [check_ok, check_fail]))
           (length (filter is_fail [check_ok, check_fail])))"
    by blast
  then show ?thesis
    unfolding ok fl by simp
qed

text \<open>
  C6 as stated fails in mode \<^verbatim>\<open>json\<close>: a check whose result starts with neither \<^verbatim>\<open>OK\<close> nor
  \<^verbatim>\<open>FAIL\<close> is printed, and no score line is printed.
\<close>

theorem print_checklist_json_prints_any_result:
  "print_checklist example_dump (Some ''json'') [check_bogus] True
     = ([Print_json [''CONFIG_IOMMU_SUPPORT'']], Inr ())
   \<and> \<not> has_verdict check_bogus"
  by (simp add: print_checklist_def call_def bind_def emit_def example_dump_def check_bogus_def verdict_defs)

theorem print_checklist_asserts_witness:
  "(\<exists>msg. snd (print_checklist example_dump None [check_ok, check_unevaluated] True)
       = Inl (AssertionError msg))
   \<and> check_unevaluated \<notin> set (printed_checks (fst (print_checklist example_dump None [check_ok, check_unevaluated] True)))"
proof -
  have m: "None \<noteq> Some ''json''" by simp
  have i: "check_unevaluated \<in> set [check_ok, check_unevaluated]" by simp
  have b: "\<not> truthy (result check_unevaluated)
      \<or> \<not> startswith (the (result check_unevaluated)) ''OK''
        \<and> \<not> startswith (the (result check_unevaluated)) ''FAIL''"
    by (simp add: check_unevaluated_def truthy_def)
  from print_checklist_asserts [of None check_unevaluated "[check_ok, check_unevaluated]" example_dump, OF m i b]
  show ?thesis .
qed

text \<open>
  C7 as stated fails in mode \<^verbatim>\<open>json\<close>: with a check whose result starts with neither
  \<^verbatim>\<open>OK\<close> nor \<^verbatim>\<open>FAIL\<close>, \<^verbatim>\<open>print_checklist\<close> makes no assertion and returns.
\<close>

theorem print_checklist_json_no_assertion:
  "snd (print_checklist example_dump (Some ''json'') [check_odd] True) = Inr ()
   \<and> \<not> startswith (the (result check_odd)) ''OK''
   \<and> \<not> startswith (the (result check_odd)) ''FAIL''"
  by (simp add: print_checklist_def call_def bind_def emit_def example_dump_def check_odd_def startswith_def)

section \<open>The order of the calls in a run\<close>

lemma call_simps [simp]: "fst (call r) = []" "snd (call r) = r"
  by (simp_all add: call_def)

lemma lift_out_simps [simp]: "fst (lift_out f r) = map f (fst r)" "snd (lift_out f r) = snd r"
  by (simp_all add: lift_out_def)

lemma fst_bind_cases:
  "fst (bind r k) = fst r @ (case snd r of Inl x \<Rightarrow> [] | Inr a \<Rightarrow> fst (k a))"
  by (simp add: fst_bind split: sum.splits)

lemma all_events_bind:
  assumes "all_events P r" and "\<And>a. snd r = Inr a \<Longrightarrow> all_events P (k a)"
  shows "all_events P (bind r k)"
  using assms by (auto simp: all_events_def fst_bind_cases split: sum.splits)

lemma all_events_basic [simp]:
  "all_events P (ret a)" "all_events P (raise x)" "all_events P (call c)"
  "all_events P (emit es) = list_all P es"
  by (simp_all add: all_events_def)

lemma all_events_lift_out: "(\<And>s. P (Stdout s)) \<Longrightarrow> all_events P (lift_out Stdout r)"
  by (simp add: all_events_def list_all_iff)

lemma all_events_mono: "all_events P r \<Longrightarrow> (\<And>e. P e \<Longrightarrow> Q e) \<Longrightarrow> all_events Q r"
  by (auto simp: all_events_def list_all_iff)

lemma call_ranks_simps [simp]:
  "call_ranks [] = []"
  "call_ranks (e # es) = (case call_rank e of None \<Rightarrow> call_ranks es | Some x \<Rightarrow> x # call_ranks es)"
  unfolding call_ranks_def by simp_all

lemma call_ranks_append: "call_ranks (xs @ ys) = call_ranks xs @ call_ranks ys"
  by (induction xs) (simp_all split: option.splits)

lemma call_ranks_silent: "list_all (\<lambda>e. call_rank e = None) es \<Longrightarrow> call_ranks es = []"
  by (induction es) simp_all

lemma is_stdout_rank: "is_stdout e \<Longrightarrow> call_rank e = None"
  by (cases e) simp_all

lemma staged_quiet:
  assumes "all_events is_stdout r"
  shows "staged lo hi r"
proof -
  from assms have "list_all (\<lambda>e. call_rank e = None) (fst r)"
    by (auto simp: all_events_def list_all_iff dest: is_stdout_rank)
  then have "call_ranks (fst r) = []" by (rule call_ranks_silent)
  then show ?thesis by (simp add: staged_def)
qed

lemma staged_bind:
  assumes "staged lo hi r" and "\<And>a. snd r = Inr a \<Longrightarrow> staged lo' hi' (k a)"
    and "hi < lo'" and "lo \<le> lo'" and "hi \<le> hi'"
  shows "staged lo hi' (bind r k)"
proof (cases "snd r")
  case (Inl x)
  with assms(1,5) show ?thesis
    by (fastforce simp: staged_def fst_bind_cases)
next
  case (Inr a)
  from assms(2) [OF Inr] have k: "staged lo' hi' (k a)" .
  from Inr have "call_ranks (fst (bind r k)) = call_ranks (fst r) @ call_ranks (fst (k a))"
    by (simp add: fst_bind_cases call_ranks_append)
  with assms(1,3,4,5) k show ?thesis
    by (fastforce simp: staged_def sorted_wrt_append)
qed

lemma staged_weaken: "staged lo hi r \<Longrightarrow> lo' \<le> lo \<Longrightarrow> hi \<le> hi' \<Longrightarrow> staged lo' hi' r"
  by (fastforce simp: staged_def)

lemma staged_emit1: "call_rank e = Some x \<Longrightarrow> staged x x (emit [e])"
  by (simp add: staged_def)

lemma staged_basic [simp]: "staged lo hi (ret a)" "staged lo hi (raise x)" "staged lo hi (call c)"
  by (simp_all add: staged_def)

lemma pc_detect_arch_quiet: "all_events is_stdout (pc_detect_arch fs mode kconfig cmdline sysctl)"
  by (auto simp: pc_detect_arch_def intro!: all_events_bind split: option.splits prod.splits)

lemma pc_detect_compiler_quiet: "all_events is_stdout (pc_detect_compiler fs mode kconfig)"
  by (auto simp: pc_detect_compiler_def intro!: all_events_bind split: option.splits prod.splits)

lemma pc_add_checks_quiet: "all_events P (pc_add_checks E arch kconfig cmdline sysctl)"
  by (auto simp: pc_add_checks_def intro!: all_events_bind split: option.splits prod.splits)

lemma pc_version_events:
  assumes "P (Call_populate_with_data ''version'')"
  shows "all_events P (pc_version E version cl)"
  using assms by (auto simp: pc_version_def intro!: all_events_bind split: option.splits)

lemma pc_cmdline_events:
  assumes "\<And>s. P (Stdout s)" and "P (Call_populate_with_data ''cmdline'')"
  shows "all_events P (pc_cmdline E fs mode cmdline cl)"
  using assms
  by (auto simp: pc_cmdline_def intro!: all_events_bind all_events_lift_out split: option.splits)

lemma pc_sysctl_events:
  assumes "\<And>s. P (Stdout s)" and "P (Call_populate_with_data ''sysctl'')"
  shows "all_events P (pc_sysctl E fs mode sysctl cl)"
  using assms
  by (auto simp: pc_sysctl_def intro!: all_events_bind all_events_lift_out split: option.splits)

lemma pc_kconfig_events:
  assumes "\<And>s. P (Stdout s)" and "P (Call_populate_with_data ''kconfig'')"
    and "\<And>k m. supplied kconfig = Some k \<Longrightarrow> snd (parse_kconfig_file fs mode Map.empty k) = Inr m
          \<Longrightarrow> truthy (m ''CONFIG_ARCH_MMAP_RND_BITS_MAX'')
          \<Longrightarrow> P (Call_override_expected_value ''CONFIG_ARCH_MMAP_RND_BITS''
                 (the (m ''CONFIG_ARCH_MMAP_RND_BITS_MAX'')))"
  shows "all_events P (pc_kconfig E fs mode kconfig cl)"
  using assms
  by (auto simp: pc_kconfig_def Let_def intro!: all_events_bind all_events_lift_out split: option.splits)

lemma table_rows_events:
  assumes "\<And>s. P (Stdout s)" and "\<And>opt. opt \<in> set cl \<Longrightarrow> P (Table_print opt mode with_results)"
  shows "all_events P (table_rows mode with_results sep cl ok fl)"
  using assms(2)
proof (induction cl arbitrary: ok fl)
  case Nil
  show ?case by simp
next
  case (Cons opt rest)
  have row: "list_all P (table_row mode with_results sep opt)"
    using assms(1) Cons.prems by (simp add: table_row_def)
  have rest: "\<And>ok fl. all_events P (table_rows mode with_results sep rest ok fl)"
    using Cons by simp
  show ?case
    using row rest by (auto intro!: all_events_bind)
qed

lemma print_checklist_events:
  assumes "\<And>s. P (Stdout s)" and "\<And>opt. opt \<in> set cl \<Longrightarrow> P (Table_print opt mode with_results)"
    and "\<And>js. json_dumps dump with_results cl = Inr js \<Longrightarrow> P (Print_json js)"
  shows "all_events P (print_checklist dump mode cl with_results)"
  using assms
  by (auto simp: print_checklist_def Let_def intro!: all_events_bind table_rows_events split: prod.splits)

lemma pc_report_events:
  assumes "\<And>s. P (Stdout s)" and "P Call_perform_checks" and "\<And>t. P (Call_print_unknown_options t)"
    and "\<And>cl' opt. perform_checks E cl = Inr cl' \<Longrightarrow> opt \<in> set cl' \<Longrightarrow> P (Table_print opt mode True)"
    and "\<And>cl' js. perform_checks E cl = Inr cl' \<Longrightarrow> json_dumps (json_dump E) True cl' = Inr js
          \<Longrightarrow> P (Print_json js)"
  shows "all_events P (pc_report E mode kconfig cmdline sysctl cl)"
  using assms
  by (auto simp: pc_report_def intro!: all_events_bind print_checklist_events)

lemma pc_prepare_events:
  assumes "\<And>s. P (Stdout s)" and "\<And>t. P (Call_populate_with_data t)"
    and "\<And>k m. supplied kconfig = Some k \<Longrightarrow> snd (parse_kconfig_file fs mode Map.empty k) = Inr m
          \<Longrightarrow> truthy (m ''CONFIG_ARCH_MMAP_RND_BITS_MAX'')
          \<Longrightarrow> P (Call_override_expected_value ''CONFIG_ARCH_MMAP_RND_BITS''
                 (the (m ''CONFIG_ARCH_MMAP_RND_BITS_MAX'')))"
  shows "all_events P (pc_prepare E fs mode version kconfig cmdline sysctl)"
proof -
  have so: "\<And>e. is_stdout e \<Longrightarrow> P e"
    using assms(1) by (case_tac e) simp_all
  show ?thesis
    unfolding pc_prepare_def
    by (intro all_events_bind all_events_mono [OF pc_detect_arch_quiet so]
        all_events_mono [OF pc_detect_compiler_quiet so] pc_add_checks_quiet
        pc_version_events pc_kconfig_events pc_cmdline_events pc_sysctl_events assms)
qed

lemma call_ranks_stdout: "call_ranks (map Stdout ws) = []"
  by (induction ws) simp_all

lemma call_ranks_bind:
  "call_ranks (fst (bind r k))
    = call_ranks (fst r) @ (case snd r of Inl x \<Rightarrow> [] | Inr a \<Rightarrow> call_ranks (fst (k a)))"
  by (simp add: fst_bind_cases call_ranks_append split: sum.splits)

lemma staged_quiet_bind:
  assumes "all_events is_stdout r" and "\<And>a. snd r = Inr a \<Longrightarrow> staged lo hi (k a)"
  shows "staged lo hi (bind r k)"
proof -
  from assms(1) have "list_all (\<lambda>e. call_rank e = None) (fst r)"
    by (auto simp: all_events_def list_all_iff dest: is_stdout_rank)
  then have "call_ranks (fst r) = []" by (rule call_ranks_silent)
  with assms(2) show ?thesis
    by (auto simp: staged_def call_ranks_bind split: sum.splits)
qed

lemma staged_out_of_range: "staged lo hi r \<Longrightarrow> x < lo \<or> hi < x \<Longrightarrow> x \<notin> set (call_ranks (fst r))"
  by (fastforce simp: staged_def)

lemma populated_first_left:
  assumes "populated_first r" and "\<And>a. snd r = Inr a \<Longrightarrow> 2 \<notin> set (call_ranks (fst (k a)))"
  shows "populated_first (bind r k)"
  using assms by (auto simp: populated_first_def call_ranks_bind split: sum.splits)

lemma populated_first_right:
  assumes "2 \<notin> set (call_ranks (fst r))" and "\<And>a. snd r = Inr a \<Longrightarrow> populated_first (k a)"
  shows "populated_first (bind r k)"
  using assms by (auto simp: populated_first_def call_ranks_bind split: sum.splits)

lemma pc_version_staged: "staged 0 0 (pc_version E version cl)"
  by (auto simp: pc_version_def staged_def call_ranks_bind split: option.splits)

lemma pc_cmdline_staged: "staged 3 3 (pc_cmdline E fs mode cmdline cl)"
  by (auto simp: pc_cmdline_def staged_def call_ranks_bind call_ranks_stdout split: option.splits sum.splits)

lemma pc_sysctl_staged: "staged 4 4 (pc_sysctl E fs mode sysctl cl)"
  by (auto simp: pc_sysctl_def staged_def call_ranks_bind call_ranks_stdout split: option.splits sum.splits)

lemma pc_kconfig_ranks:
  "call_ranks (fst (pc_kconfig E fs mode kconfig cl)) \<in> {[], [1], [1, 2]}"
  by (auto simp: pc_kconfig_def Let_def call_ranks_bind call_ranks_stdout split: option.splits sum.splits)

lemma pc_kconfig_staged: "staged 1 2 (pc_kconfig E fs mode kconfig cl)"
  using pc_kconfig_ranks [of E fs mode kconfig cl] by (auto simp: staged_def)

lemma pc_kconfig_populated_first: "populated_first (pc_kconfig E fs mode kconfig cl)"
  using pc_kconfig_ranks [of E fs mode kconfig cl] by (auto simp: populated_first_def)

lemma print_checklist_silent: "call_ranks (fst (print_checklist dump mode cl with_results)) = []"
proof -
  have "all_events (\<lambda>e. call_rank e = None) (print_checklist dump mode cl with_results)"
    by (rule print_checklist_events) simp_all
  then show ?thesis
    by (simp add: all_events_def call_ranks_silent)
qed

lemma pc_report_staged: "staged 5 8 (pc_report E mode kconfig cmdline sysctl cl)"
  by (auto simp: pc_report_def staged_def call_ranks_bind print_checklist_silent split: sum.splits)

lemma pc_tail_staged:
  "staged 3 4 (bind (pc_cmdline E fs mode cmdline cl) (\<lambda>cl. pc_sysctl E fs mode sysctl cl))"
  by (rule staged_bind [where lo' = 4 and hi' = 4, OF pc_cmdline_staged]) (rule pc_sysctl_staged, simp_all)

lemma pc_kconfig_tail_staged:
  "staged 1 4 (bind (pc_kconfig E fs mode kconfig cl)
      (\<lambda>cl. bind (pc_cmdline E fs mode cmdline cl) (\<lambda>cl. pc_sysctl E fs mode sysctl cl)))"
  by (rule staged_bind [where lo' = 3 and hi' = 4, OF pc_kconfig_staged]) (rule pc_tail_staged, simp_all)

lemma pc_version_tail_staged:
  "staged 0 4 (bind (pc_version E version cl)
      (\<lambda>cl. bind (pc_kconfig E fs mode kconfig cl)
        (\<lambda>cl. bind (pc_cmdline E fs mode cmdline cl) (\<lambda>cl. pc_sysctl E fs mode sysctl cl))))"
  by (rule staged_bind [where lo' = 1 and hi' = 4, OF pc_version_staged])
     (rule pc_kconfig_tail_staged, simp_all)

lemma pc_prepare_staged: "staged 0 4 (pc_prepare E fs mode version kconfig cmdline sysctl)"
  unfolding pc_prepare_def
  by (intro staged_quiet_bind pc_detect_arch_quiet pc_detect_compiler_quiet pc_add_checks_quiet
      pc_version_tail_staged)

lemma perform_checking_staged: "staged 0 8 (perform_checking E fs mode version kconfig cmdline sysctl)"
  unfolding perform_checking_def
  by (rule staged_bind [where lo' = 5 and hi' = 8, OF pc_prepare_staged]) (rule pc_report_staged, simp_all)

lemma quiet_no_rank: "all_events is_stdout r \<Longrightarrow> x \<notin> set (call_ranks (fst r))"
  using staged_quiet [of r "Suc x" 0] by (auto simp: staged_def)

lemma pc_kconfig_tail_populated_first:
  "populated_first (bind (pc_kconfig E fs mode kconfig cl)
      (\<lambda>cl. bind (pc_cmdline E fs mode cmdline cl) (\<lambda>cl. pc_sysctl E fs mode sysctl cl)))"
proof (rule populated_first_left [OF pc_kconfig_populated_first])
  fix cl2
  show "2 \<notin> set (call_ranks (fst (bind (pc_cmdline E fs mode cmdline cl2)
      (\<lambda>cl. pc_sysctl E fs mode sysctl cl))))"
    using pc_tail_staged by (rule staged_out_of_range) simp
qed

lemma pc_version_tail_populated_first:
  "populated_first (bind (pc_version E version cl)
      (\<lambda>cl. bind (pc_kconfig E fs mode kconfig cl)
        (\<lambda>cl. bind (pc_cmdline E fs mode cmdline cl) (\<lambda>cl. pc_sysctl E fs mode sysctl cl))))"
proof (rule populated_first_right)
  show "2 \<notin> set (call_ranks (fst (pc_version E version cl)))"
    using pc_version_staged by (rule staged_out_of_range) simp
qed (rule pc_kconfig_tail_populated_first)

lemma populated_first_quiet:
  assumes "all_events is_stdout r" and "\<And>a. snd r = Inr a \<Longrightarrow> populated_first (k a)"
  shows "populated_first (bind r k)"
  using assms(2) by (rule populated_first_right [OF quiet_no_rank [OF assms(1)]])

lemma pc_prepare_populated_first: "populated_first (pc_prepare E fs mode version kconfig cmdline sysctl)"
  unfolding pc_prepare_def
  by (intro populated_first_quiet pc_detect_arch_quiet pc_detect_compiler_quiet pc_add_checks_quiet
      pc_version_tail_populated_first)

lemma perform_checking_populated_first:
  "populated_first (perform_checking E fs mode version kconfig cmdline sysctl)"
  unfolding perform_checking_def
proof (rule populated_first_left [OF pc_prepare_populated_first])
  fix cl
  show "2 \<notin> set (call_ranks (fst (pc_report E mode kconfig cmdline sysctl cl)))"
    using pc_report_staged by (rule staged_out_of_range) simp
qed

lemma rank_in_ranks: "e \<in> set es \<Longrightarrow> call_rank e = Some x \<Longrightarrow> x \<in> set (call_ranks es)"
  by (induction es) (auto split: option.splits)

lemma ranks_from_event: "x \<in> set (call_ranks es) \<Longrightarrow> \<exists>e \<in> set es. call_rank e = Some x"
  by (induction es) (auto split: option.splits)

lemma rank_one: "call_rank e = Some 1 \<Longrightarrow> e = Call_populate_with_data ''kconfig''"
  by (cases e) (auto split: if_splits)

lemma example_run_calls:
  "engine_calls (fst (perform_checking example_engine run_example None (Some [5, 10, 0])
       (Some ''config'') None (Some ''sysctl'')))
   = [Call_populate_with_data ''version'', Call_populate_with_data ''kconfig'',
      Call_override_expected_value ''CONFIG_ARCH_MMAP_RND_BITS'' ''32'',
      Call_populate_with_data ''sysctl'', Call_perform_checks]"
  by code_simp

text \<open>
  C2, as the code has it. In every run of \<^verbatim>\<open>perform_checking\<close>, a call of
  \<^verbatim>\<open>override_expected_value\<close> comes after the call of \<^verbatim>\<open>populate_with_data\<close> for the
  Kconfig options, which has taken place, and after the one for the kernel version if
  there is one; it comes before the calls of \<^verbatim>\<open>populate_with_data\<close> for the cmdline and
  the sysctl options and before \<^verbatim>\<open>perform_checks\<close>; and it is the only such call.
\<close>

theorem perform_checking_override_position:
  fixes E :: "('a ChecklistObjType_scheme, 'j) engine"
  assumes "fst (perform_checking E fs mode version kconfig cmdline sysctl)
      = before @ Call_override_expected_value n v # after"
  shows "Call_populate_with_data ''kconfig'' \<in> set before
    \<and> Call_populate_with_data ''cmdline'' \<notin> set before
    \<and> Call_populate_with_data ''sysctl'' \<notin> set before
    \<and> Call_perform_checks \<notin> set before
    \<and> Call_populate_with_data ''version'' \<notin> set after
    \<and> Call_populate_with_data ''kconfig'' \<notin> set after
    \<and> (\<forall>n' v'. Call_override_expected_value n' v' \<notin> set before
                \<and> Call_override_expected_value n' v' \<notin> set after)"
proof -
  let ?r = "perform_checking E fs mode version kconfig cmdline sysctl"
  have ranks: "call_ranks (fst ?r) = call_ranks before @ 2 # call_ranks after"
    by (simp add: assms call_ranks_append)
  have "sorted_wrt (<) (call_ranks (fst ?r))"
    using perform_checking_staged [of E fs mode version kconfig cmdline sysctl]
    by (simp add: staged_def)
  then have lo: "\<forall>x \<in> set (call_ranks before). x < 2" and hi: "\<forall>x \<in> set (call_ranks after). 2 < x"
    by (auto simp: ranks sorted_wrt_append)
  have b: "\<And>e x. e \<in> set before \<Longrightarrow> call_rank e = Some x \<Longrightarrow> x < 2"
    using lo by (blast dest: rank_in_ranks)
  have a: "\<And>e x. e \<in> set after \<Longrightarrow> call_rank e = Some x \<Longrightarrow> 2 < x"
    using hi by (blast dest: rank_in_ranks)
  have "1 \<in> set (call_ranks (fst ?r))"
    using perform_checking_populated_first [of E fs mode version kconfig cmdline sysctl]
    by (simp add: populated_first_def ranks)
  with hi have "1 \<in> set (call_ranks before)"
    by (auto simp: ranks)
  then obtain e where e: "e \<in> set before" and r: "call_rank e = Some 1"
    by (blast dest: ranks_from_event)
  from r have "e = Call_populate_with_data ''kconfig''"
    by (rule rank_one)
  with e have k: "Call_populate_with_data ''kconfig'' \<in> set before"
    by simp
  from b [of "Call_populate_with_data ''cmdline''"] have c: "Call_populate_with_data ''cmdline'' \<notin> set before"
    by auto
  from b [of "Call_populate_with_data ''sysctl''"] have s: "Call_populate_with_data ''sysctl'' \<notin> set before"
    by auto
  from b [of Call_perform_checks] have p: "Call_perform_checks \<notin> set before"
    by auto
  from a [of "Call_populate_with_data ''version''"] have v: "Call_populate_with_data ''version'' \<notin> set after"
    by auto
  from a [of "Call_populate_with_data ''kconfig''"] have k': "Call_populate_with_data ''kconfig'' \<notin> set after"
    by auto
  have o: "\<forall>n' v'. Call_override_expected_value n' v' \<notin> set before
      \<and> Call_override_expected_value n' v' \<notin> set after"
  proof (intro allI conjI)
    fix n' v'
    from b [of "Call_override_expected_value n' v'"] show "Call_override_expected_value n' v' \<notin> set before"
      by auto
    from a [of "Call_override_expected_value n' v'"] show "Call_override_expected_value n' v' \<notin> set after"
      by auto
  qed
  from k c s p v k' o show ?thesis
    by (intro conjI)
qed

lemma engine_calls_subset: "e \<in> set (engine_calls out) \<Longrightarrow> e \<in> set out"
  by (simp add: engine_calls_def)

theorem perform_checking_override_position_witness:
  "\<exists>before after.
     fst (perform_checking example_engine run_example None (Some [5, 10, 0])
            (Some ''config'') None (Some ''sysctl''))
       = before @ Call_override_expected_value ''CONFIG_ARCH_MMAP_RND_BITS'' ''32'' # after
     \<and> Call_populate_with_data ''kconfig'' \<in> set before
     \<and> Call_populate_with_data ''sysctl'' \<notin> set before
     \<and> Call_perform_checks \<notin> set before
     \<and> Call_populate_with_data ''kconfig'' \<notin> set after"
proof -
  let ?out = "fst (perform_checking example_engine run_example None (Some [5, 10, 0])
            (Some ''config'') None (Some ''sysctl''))"
  have "Call_override_expected_value ''CONFIG_ARCH_MMAP_RND_BITS'' ''32'' \<in> set (engine_calls ?out)"
    by (simp add: example_run_calls)
  then have "Call_override_expected_value ''CONFIG_ARCH_MMAP_RND_BITS'' ''32'' \<in> set ?out"
    by (rule engine_calls_subset)
  then obtain before after where
    split: "?out = before @ Call_override_expected_value ''CONFIG_ARCH_MMAP_RND_BITS'' ''32'' # after"
    by (auto simp: in_set_conv_decomp)
  from perform_checking_override_position [OF split] split show ?thesis
    by blast
qed

text \<open>
  C2 as stated fails: in the run below, with a Kconfig file and a sysctl file, the call
  of \<^verbatim>\<open>override_expected_value\<close> comes before the call of \<^verbatim>\<open>populate_with_data\<close> for the
  sysctl options.
\<close>

theorem perform_checking_override_before_sysctl:
  "engine_calls (fst (perform_checking example_engine run_example None (Some [5, 10, 0])
       (Some ''config'') None (Some ''sysctl'')))
   = [Call_populate_with_data ''version'', Call_populate_with_data ''kconfig'',
      Call_override_expected_value ''CONFIG_ARCH_MMAP_RND_BITS'' ''32'',
      Call_populate_with_data ''sysctl'', Call_perform_checks]"
  by (rule example_run_calls)

lemma bind_success:
  assumes "snd (bind r k) = Inr b"
  shows "\<exists>a. snd r = Inr a \<and> snd (k a) = Inr b \<and> fst (bind r k) = fst r @ fst (k a)"
  using assms by (cases "snd r") (simp_all add: snd_bind fst_bind_cases)

lemma bind_events_left: "set (fst r) \<subseteq> set (fst (bind r k))"
  by (simp add: fst_bind_cases)

lemma perform_checking_events:
  fixes E :: "('a ChecklistObjType_scheme, 'j) engine"
  assumes "\<And>s. P (Stdout s)" and "\<And>t. P (Call_populate_with_data t)"
    and "\<And>k m. supplied kconfig = Some k \<Longrightarrow> snd (parse_kconfig_file fs mode Map.empty k) = Inr m
          \<Longrightarrow> truthy (m ''CONFIG_ARCH_MMAP_RND_BITS_MAX'')
          \<Longrightarrow> P (Call_override_expected_value ''CONFIG_ARCH_MMAP_RND_BITS''
                 (the (m ''CONFIG_ARCH_MMAP_RND_BITS_MAX'')))"
    and "P Call_perform_checks" and "\<And>t. P (Call_print_unknown_options t)"
    and "\<And>cl cl' opt. snd (pc_prepare E fs mode version kconfig cmdline sysctl) = Inr cl
          \<Longrightarrow> perform_checks E cl = Inr cl' \<Longrightarrow> opt \<in> set cl' \<Longrightarrow> P (Table_print opt mode True)"
    and "\<And>cl cl' js. snd (pc_prepare E fs mode version kconfig cmdline sysctl) = Inr cl
          \<Longrightarrow> perform_checks E cl = Inr cl' \<Longrightarrow> json_dumps (json_dump E) True cl' = Inr js
          \<Longrightarrow> P (Print_json js)"
  shows "all_events P (perform_checking E fs mode version kconfig cmdline sysctl)"
  unfolding perform_checking_def
proof (rule all_events_bind)
  show "all_events P (pc_prepare E fs mode version kconfig cmdline sysctl)"
    by (rule pc_prepare_events) (use assms in blast)+
next
  fix cl
  assume "snd (pc_prepare E fs mode version kconfig cmdline sysctl) = Inr cl"
  then show "all_events P (pc_report E mode kconfig cmdline sysctl cl)"
    by (intro pc_report_events) (use assms in blast)+
qed

lemma pc_version_names:
  assumes "keeps_names E" and "snd (pc_version E version cl) = Inr cl'"
  shows "map name cl' = map name cl"
  using assms
  by (auto simp: pc_version_def keeps_names_def snd_bind split: option.splits if_splits)

lemma pc_cmdline_names:
  assumes "keeps_names E" and "snd (pc_cmdline E fs mode cmdline cl) = Inr cl'"
  shows "map name cl' = map name cl"
  using assms
  by (auto simp: pc_cmdline_def keeps_names_def snd_bind split: option.splits sum.splits)

lemma pc_sysctl_names:
  assumes "keeps_names E" and "snd (pc_sysctl E fs mode sysctl cl) = Inr cl'"
  shows "map name cl' = map name cl"
  using assms
  by (auto simp: pc_sysctl_def keeps_names_def snd_bind split: option.splits sum.splits)

lemma pc_kconfig_removed:
  assumes "supplied kconfig = Some k" and "snd (parse_kconfig_file fs mode Map.empty k) = Inr m"
    and "\<not> truthy (m ''CONFIG_ARCH_MMAP_RND_BITS_MAX'')"
    and "snd (pc_kconfig E fs mode kconfig cl) = Inr cl'"
  shows "\<exists>cl1. populate_with_data E cl (Options m) ''kconfig'' = Inr cl1
      \<and> cl' = filter (\<lambda>opt. name opt \<noteq> ''CONFIG_ARCH_MMAP_RND_BITS'') cl1"
  using assms
  by (auto simp: pc_kconfig_def Let_def snd_bind split: sum.splits)

lemma pc_kconfig_overridden:
  assumes "supplied kconfig = Some k" and "snd (parse_kconfig_file fs mode Map.empty k) = Inr m"
    and "truthy (m ''CONFIG_ARCH_MMAP_RND_BITS_MAX'')"
    and "snd (pc_kconfig E fs mode kconfig cl) = Inr cl'"
  shows "Call_override_expected_value ''CONFIG_ARCH_MMAP_RND_BITS'' (the (m ''CONFIG_ARCH_MMAP_RND_BITS_MAX''))
      \<in> set (fst (pc_kconfig E fs mode kconfig cl))"
  using assms
  by (auto simp: pc_kconfig_def Let_def snd_bind fst_bind_cases split: sum.splits)

lemma names_filter:
  "map name (filter (\<lambda>opt. name opt \<noteq> key) cl) = filter (\<lambda>n. n \<noteq> key) (map name cl)"
  by (induction cl) auto

lemma pc_kconfig_names:
  assumes "keeps_names E" and "snd (pc_kconfig E fs mode kconfig cl) = Inr cl'"
  shows "map name cl' = map name cl
      \<or> map name cl' = filter (\<lambda>n. n \<noteq> ''CONFIG_ARCH_MMAP_RND_BITS'') (map name cl)"
proof (cases "supplied kconfig")
  case None
  with assms(2) show ?thesis
    by (simp add: pc_kconfig_def)
next
  case (Some k)
  from assms(2) Some obtain m where m: "snd (parse_kconfig_file fs mode Map.empty k) = Inr m"
    by (auto simp: pc_kconfig_def snd_bind split: sum.splits)
  from assms(2) Some m obtain cl1 where cl1: "populate_with_data E cl (Options m) ''kconfig'' = Inr cl1"
    by (auto simp: pc_kconfig_def snd_bind split: sum.splits)
  from assms(1) cl1 have n1: "map name cl1 = map name cl"
    by (simp add: keeps_names_def)
  show ?thesis
  proof (cases "truthy (m ''CONFIG_ARCH_MMAP_RND_BITS_MAX'')")
    case True
    with assms(2) Some m cl1
    have "override_expected_value E cl1 ''CONFIG_ARCH_MMAP_RND_BITS''
        (the (m ''CONFIG_ARCH_MMAP_RND_BITS_MAX'')) = Inr cl'"
      by (simp add: pc_kconfig_def Let_def snd_bind)
    with assms(1) have "map name cl' = map name cl1"
      by (simp add: keeps_names_def)
    with n1 show ?thesis by simp
  next
    case False
    with assms(2) Some m cl1
    have "cl' = filter (\<lambda>opt. name opt \<noteq> ''CONFIG_ARCH_MMAP_RND_BITS'') cl1"
      by (simp add: pc_kconfig_def Let_def snd_bind)
    with n1 show ?thesis
      by (simp add: names_filter)
  qed
qed

section \<open>The check CONFIG_ARCH_MMAP_RND_BITS is refined or removed\<close>

lemma pc_prepare_success:
  fixes E :: "('a ChecklistObjType_scheme, 'j) engine"
  assumes "snd (pc_prepare E fs mode version kconfig cmdline sysctl) = Inr cl"
  shows "\<exists>arch cl0 cl1 cl2 cl3.
      snd (pc_detect_arch fs mode kconfig cmdline sysctl
            :: (('a ChecklistObjType_scheme, 'j) event, StrOrNone) run) = Inr arch
    \<and> snd (pc_add_checks E arch kconfig cmdline sysctl) = Inr cl0
    \<and> snd (pc_version E version cl0) = Inr cl1
    \<and> snd (pc_kconfig E fs mode kconfig cl1) = Inr cl2
    \<and> snd (pc_cmdline E fs mode cmdline cl2) = Inr cl3
    \<and> snd (pc_sysctl E fs mode sysctl cl3) = Inr cl
    \<and> set (fst (pc_kconfig E fs mode kconfig cl1))
        \<subseteq> set (fst (pc_prepare E fs mode version kconfig cmdline sysctl))"
  using assms
  by (auto simp: pc_prepare_def snd_bind fst_bind_cases split: sum.splits)

lemma printed_checks_event:
  "opt \<in> set (printed_checks out) \<Longrightarrow> \<exists>mo w. Table_print opt mo w \<in> set out"
  by (induction out rule: printed_checks.induct) auto

lemma all_eventsD: "all_events P r \<Longrightarrow> e \<in> set (fst r) \<Longrightarrow> P e"
  by (simp add: all_events_def list_all_iff)

lemma perform_checking_reaches_evaluation:
  fixes E :: "('a ChecklistObjType_scheme, 'j) engine"
  assumes "Call_perform_checks \<in> set (fst (perform_checking E fs mode version kconfig cmdline sysctl))"
  shows "\<exists>cl. snd (pc_prepare E fs mode version kconfig cmdline sysctl) = Inr cl"
proof (rule ccontr)
  assume "\<nexists>cl. snd (pc_prepare E fs mode version kconfig cmdline sysctl) = Inr cl"
  then obtain x where "snd (pc_prepare E fs mode version kconfig cmdline sysctl) = Inl x"
    by (cases "snd (pc_prepare E fs mode version kconfig cmdline sysctl)") auto
  then have "fst (perform_checking E fs mode version kconfig cmdline sysctl)
      = fst (pc_prepare E fs mode version kconfig cmdline sysctl)"
    by (simp add: perform_checking_def fst_bind_cases)
  with assms have "Call_perform_checks \<in> set (fst (pc_prepare E fs mode version kconfig cmdline sysctl))"
    by simp
  moreover have "all_events (\<lambda>e. e \<noteq> Call_perform_checks) (pc_prepare E fs mode version kconfig cmdline sysctl)"
    by (rule pc_prepare_events) simp_all
  ultimately show False
    by (blast dest: all_eventsD)
qed

lemma pc_prepare_without_check:
  fixes E :: "('a ChecklistObjType_scheme, 'j) engine"
  assumes "supplied kconfig = Some k" and "snd (parse_kconfig_file fs mode Map.empty k) = Inr m"
    and "\<not> truthy (m ''CONFIG_ARCH_MMAP_RND_BITS_MAX'')" and "keeps_names E"
    and "snd (pc_prepare E fs mode version kconfig cmdline sysctl) = Inr cl"
  shows "''CONFIG_ARCH_MMAP_RND_BITS'' \<notin> set (map name cl)"
proof -
  from pc_prepare_success [OF assms(5)] obtain cl1 cl2 cl3 where
    kc: "snd (pc_kconfig E fs mode kconfig cl1) = Inr cl2"
    and cm: "snd (pc_cmdline E fs mode cmdline cl2) = Inr cl3"
    and sy: "snd (pc_sysctl E fs mode sysctl cl3) = Inr cl"
    by blast
  from pc_kconfig_removed [OF assms(1,2,3) kc]
  have "''CONFIG_ARCH_MMAP_RND_BITS'' \<notin> set (map name cl2)"
    by auto
  moreover from assms(4) cm have "map name cl3 = map name cl2"
    by (rule pc_cmdline_names)
  moreover from assms(4) sy have "map name cl = map name cl3"
    by (rule pc_sysctl_names)
  ultimately show ?thesis by simp
qed

lemma pc_kconfig_applies:
  assumes "supplied kconfig = Some k" and "snd (parse_kconfig_file fs mode Map.empty k) = Inr m"
    and "truthy (m ''CONFIG_ARCH_MMAP_RND_BITS_MAX'')"
  shows "snd (pc_kconfig E fs mode kconfig cl)
    = (case populate_with_data E cl (Options m) ''kconfig'' of
         Inl x \<Rightarrow> Inl x
       | Inr clp \<Rightarrow> override_expected_value E clp ''CONFIG_ARCH_MMAP_RND_BITS''
                     (the (m ''CONFIG_ARCH_MMAP_RND_BITS_MAX'')))"
  using assms
  by (simp add: pc_kconfig_def Let_def snd_bind lift_out_def call_def split: sum.splits prod.splits)

lemma pc_kconfig_drops:
  assumes "supplied kconfig = Some k" and "snd (parse_kconfig_file fs mode Map.empty k) = Inr m"
    and "\<not> truthy (m ''CONFIG_ARCH_MMAP_RND_BITS_MAX'')"
  shows "snd (pc_kconfig E fs mode kconfig cl)
    = (case populate_with_data E cl (Options m) ''kconfig'' of
         Inl x \<Rightarrow> Inl x
       | Inr clp \<Rightarrow> Inr (filter (\<lambda>opt. name opt \<noteq> ''CONFIG_ARCH_MMAP_RND_BITS'') clp))"
  using assms
  by (simp add: pc_kconfig_def Let_def snd_bind lift_out_def call_def split: sum.splits prod.splits)

lemma pc_prepare_overridden:
  fixes E :: "('a ChecklistObjType_scheme, 'j) engine"
  assumes "supplied kconfig = Some k" and "snd (parse_kconfig_file fs mode Map.empty k) = Inr m"
    and "truthy (m ''CONFIG_ARCH_MMAP_RND_BITS_MAX'')"
    and "snd (pc_prepare E fs mode version kconfig cmdline sysctl) = Inr cl"
  shows "\<exists>arch cl0 cl1 clp cl2 cl3.
      snd (pc_detect_arch fs mode kconfig cmdline sysctl
            :: (('a ChecklistObjType_scheme, 'j) event, StrOrNone) run) = Inr arch
    \<and> snd (pc_add_checks E arch kconfig cmdline sysctl) = Inr cl0
    \<and> snd (pc_version E version cl0) = Inr cl1
    \<and> populate_with_data E cl1 (Options m) ''kconfig'' = Inr clp
    \<and> override_expected_value E clp ''CONFIG_ARCH_MMAP_RND_BITS''
          (the (m ''CONFIG_ARCH_MMAP_RND_BITS_MAX'')) = Inr cl2
    \<and> snd (pc_cmdline E fs mode cmdline cl2) = Inr cl3
    \<and> snd (pc_sysctl E fs mode sysctl cl3) = Inr cl"
proof -
  from pc_prepare_success [OF assms(4)] obtain arch cl0 cl1 cl2 cl3 where
    ar: "snd (pc_detect_arch fs mode kconfig cmdline sysctl
            :: (('a ChecklistObjType_scheme, 'j) event, StrOrNone) run) = Inr arch"
    and ad: "snd (pc_add_checks E arch kconfig cmdline sysctl) = Inr cl0"
    and ve: "snd (pc_version E version cl0) = Inr cl1"
    and kc: "snd (pc_kconfig E fs mode kconfig cl1) = Inr cl2"
    and cm: "snd (pc_cmdline E fs mode cmdline cl2) = Inr cl3"
    and sy: "snd (pc_sysctl E fs mode sysctl cl3) = Inr cl"
    by blast
  from kc pc_kconfig_applies [OF assms(1,2,3), of E cl1] obtain clp where
    "populate_with_data E cl1 (Options m) ''kconfig'' = Inr clp"
    and "override_expected_value E clp ''CONFIG_ARCH_MMAP_RND_BITS''
          (the (m ''CONFIG_ARCH_MMAP_RND_BITS_MAX'')) = Inr cl2"
    by (auto split: sum.splits)
  with ar ad ve cm sy show ?thesis
    by blast
qed

lemma pc_prepare_dropped:
  fixes E :: "('a ChecklistObjType_scheme, 'j) engine"
  assumes "supplied kconfig = Some k" and "snd (parse_kconfig_file fs mode Map.empty k) = Inr m"
    and "\<not> truthy (m ''CONFIG_ARCH_MMAP_RND_BITS_MAX'')"
    and "snd (pc_prepare E fs mode version kconfig cmdline sysctl) = Inr cl"
  shows "\<exists>arch cl0 cl1 clp cl3.
      snd (pc_detect_arch fs mode kconfig cmdline sysctl
            :: (('a ChecklistObjType_scheme, 'j) event, StrOrNone) run) = Inr arch
    \<and> snd (pc_add_checks E arch kconfig cmdline sysctl) = Inr cl0
    \<and> snd (pc_version E version cl0) = Inr cl1
    \<and> populate_with_data E cl1 (Options m) ''kconfig'' = Inr clp
    \<and> snd (pc_cmdline E fs mode cmdline
              (filter (\<lambda>opt. name opt \<noteq> ''CONFIG_ARCH_MMAP_RND_BITS'') clp)) = Inr cl3
    \<and> snd (pc_sysctl E fs mode sysctl cl3) = Inr cl"
proof -
  from pc_prepare_success [OF assms(4)] obtain arch cl0 cl1 cl2 cl3 where
    ar: "snd (pc_detect_arch fs mode kconfig cmdline sysctl
            :: (('a ChecklistObjType_scheme, 'j) event, StrOrNone) run) = Inr arch"
    and ad: "snd (pc_add_checks E arch kconfig cmdline sysctl) = Inr cl0"
    and ve: "snd (pc_version E version cl0) = Inr cl1"
    and kc: "snd (pc_kconfig E fs mode kconfig cl1) = Inr cl2"
    and cm: "snd (pc_cmdline E fs mode cmdline cl2) = Inr cl3"
    and sy: "snd (pc_sysctl E fs mode sysctl cl3) = Inr cl"
    by blast
  from kc pc_kconfig_drops [OF assms(1,2,3), of E cl1] obtain clp where
    "populate_with_data E cl1 (Options m) ''kconfig'' = Inr clp"
    and "cl2 = filter (\<lambda>opt. name opt \<noteq> ''CONFIG_ARCH_MMAP_RND_BITS'') clp"
    by (auto split: sum.splits)
  with ar ad ve cm sy show ?thesis
    by blast
qed

lemma perform_checking_rows_evaluated:
  fixes E :: "('a ChecklistObjType_scheme, 'j) engine"
  assumes "opt \<in> set (printed_checks (fst (perform_checking E fs mode version kconfig cmdline sysctl)))"
  shows "\<exists>cl cl'. snd (pc_prepare E fs mode version kconfig cmdline sysctl) = Inr cl
      \<and> perform_checks E cl = Inr cl' \<and> opt \<in> set cl'"
proof -
  let ?P = "\<lambda>e. \<forall>opt mo w. e = Table_print opt mo w \<longrightarrow>
      (\<exists>cl cl'. snd (pc_prepare E fs mode version kconfig cmdline sysctl) = Inr cl
         \<and> perform_checks E cl = Inr cl' \<and> opt \<in> set cl')"
  have "all_events ?P (perform_checking E fs mode version kconfig cmdline sysctl)"
    by (rule perform_checking_events) auto
  with assms show ?thesis
    by (blast dest: all_eventsD printed_checks_event)
qed

text \<open>
  C1. In a run of \<^verbatim>\<open>perform_checking\<close> with a Kconfig file whose parsed options are \<open>m\<close>:
  when \<open>m\<close> has a non-empty value for \<^verbatim>\<open>CONFIG_ARCH_MMAP_RND_BITS_MAX\<close>, every call of
  \<^verbatim>\<open>override_expected_value\<close> is for the name \<^verbatim>\<open>CONFIG_ARCH_MMAP_RND_BITS\<close> with that value,
  a run that reaches \<^verbatim>\<open>perform_checks\<close> has made this call, and the call does the work:
  the Kconfig block hands on what \<^verbatim>\<open>override_expected_value\<close> returns for the populated
  checklist, this name and this value (or fails as the population or the override fails),
  so the checklist that is ready for the evaluation is the one that
  \<^verbatim>\<open>override_expected_value\<close> returned, taken through the cmdline and the sysctl
  population. Otherwise \<^verbatim>\<open>override_expected_value\<close> is never called, the Kconfig block
  hands on the populated checklist without the checks of that name and, with an engine
  that keeps the checks it is given, the checklist that reaches the evaluation has no
  check of that name, no row of the table is printed for such a check, and a list that
  is printed as JSON is the dump of a checklist without such a check. In both cases a
  check for which a row is printed belongs to what \<^verbatim>\<open>perform_checks\<close> returned for the
  checklist so prepared.
\<close>

theorem perform_checking_mmap_rnd_bits:
  fixes E :: "('a ChecklistObjType_scheme, 'j) engine"
  assumes "supplied kconfig = Some k" and "snd (parse_kconfig_file fs mode Map.empty k) = Inr m"
  shows "(truthy (m ''CONFIG_ARCH_MMAP_RND_BITS_MAX'') \<longrightarrow>
            (\<forall>n v. Call_override_expected_value n v
                      \<in> set (fst (perform_checking E fs mode version kconfig cmdline sysctl))
                \<longrightarrow> n = ''CONFIG_ARCH_MMAP_RND_BITS'' \<and> m ''CONFIG_ARCH_MMAP_RND_BITS_MAX'' = Some v)
          \<and> (Call_perform_checks \<in> set (fst (perform_checking E fs mode version kconfig cmdline sysctl))
                \<longrightarrow> Call_override_expected_value ''CONFIG_ARCH_MMAP_RND_BITS''
                      (the (m ''CONFIG_ARCH_MMAP_RND_BITS_MAX''))
                    \<in> set (fst (perform_checking E fs mode version kconfig cmdline sysctl)))
          \<and> (\<forall>cl1. snd (pc_kconfig E fs mode kconfig cl1)
                = (case populate_with_data E cl1 (Options m) ''kconfig'' of
                     Inl x \<Rightarrow> Inl x
                   | Inr clp \<Rightarrow> override_expected_value E clp ''CONFIG_ARCH_MMAP_RND_BITS''
                                 (the (m ''CONFIG_ARCH_MMAP_RND_BITS_MAX''))))
          \<and> (\<forall>cl. snd (pc_prepare E fs mode version kconfig cmdline sysctl) = Inr cl \<longrightarrow>
                (\<exists>arch cl0 cl1 clp cl2 cl3.
                    snd (pc_detect_arch fs mode kconfig cmdline sysctl
                          :: (('a ChecklistObjType_scheme, 'j) event, StrOrNone) run) = Inr arch
                  \<and> snd (pc_add_checks E arch kconfig cmdline sysctl) = Inr cl0
                  \<and> snd (pc_version E version cl0) = Inr cl1
                  \<and> populate_with_data E cl1 (Options m) ''kconfig'' = Inr clp
                  \<and> override_expected_value E clp ''CONFIG_ARCH_MMAP_RND_BITS''
                        (the (m ''CONFIG_ARCH_MMAP_RND_BITS_MAX'')) = Inr cl2
                  \<and> snd (pc_cmdline E fs mode cmdline cl2) = Inr cl3
                  \<and> snd (pc_sysctl E fs mode sysctl cl3) = Inr cl)))
       \<and> (\<not> truthy (m ''CONFIG_ARCH_MMAP_RND_BITS_MAX'') \<longrightarrow>
            (\<forall>n v. Call_override_expected_value n v
                      \<notin> set (fst (perform_checking E fs mode version kconfig cmdline sysctl)))
          \<and> (\<forall>cl1. snd (pc_kconfig E fs mode kconfig cl1)
                = (case populate_with_data E cl1 (Options m) ''kconfig'' of
                     Inl x \<Rightarrow> Inl x
                   | Inr clp \<Rightarrow> Inr (filter (\<lambda>opt. name opt \<noteq> ''CONFIG_ARCH_MMAP_RND_BITS'') clp)))
          \<and> (\<forall>cl. snd (pc_prepare E fs mode version kconfig cmdline sysctl) = Inr cl \<longrightarrow>
                (\<exists>arch cl0 cl1 clp cl3.
                    snd (pc_detect_arch fs mode kconfig cmdline sysctl
                          :: (('a ChecklistObjType_scheme, 'j) event, StrOrNone) run) = Inr arch
                  \<and> snd (pc_add_checks E arch kconfig cmdline sysctl) = Inr cl0
                  \<and> snd (pc_version E version cl0) = Inr cl1
                  \<and> populate_with_data E cl1 (Options m) ''kconfig'' = Inr clp
                  \<and> snd (pc_cmdline E fs mode cmdline
                            (filter (\<lambda>opt. name opt \<noteq> ''CONFIG_ARCH_MMAP_RND_BITS'') clp)) = Inr cl3
                  \<and> snd (pc_sysctl E fs mode sysctl cl3) = Inr cl))
          \<and> (keeps_names E \<longrightarrow>
                (\<forall>cl. snd (pc_prepare E fs mode version kconfig cmdline sysctl) = Inr cl
                    \<longrightarrow> ''CONFIG_ARCH_MMAP_RND_BITS'' \<notin> set (map name cl))
              \<and> (\<forall>opt \<in> set (printed_checks (fst (perform_checking E fs mode version kconfig cmdline sysctl))).
                    name opt \<noteq> ''CONFIG_ARCH_MMAP_RND_BITS'')
              \<and> (\<forall>js. Print_json js \<in> set (fst (perform_checking E fs mode version kconfig cmdline sysctl))
                    \<longrightarrow> (\<exists>cl. ''CONFIG_ARCH_MMAP_RND_BITS'' \<notin> set (map name cl)
                            \<and> json_dumps (json_dump E) True cl = Inr js))))
       \<and> (\<forall>opt \<in> set (printed_checks (fst (perform_checking E fs mode version kconfig cmdline sysctl))).
            \<exists>cl cl'. snd (pc_prepare E fs mode version kconfig cmdline sysctl) = Inr cl
              \<and> perform_checks E cl = Inr cl' \<and> opt \<in> set cl')"
proof -
  let ?R = "perform_checking E fs mode version kconfig cmdline sysctl"
  let ?prep = "pc_prepare E fs mode version kconfig cmdline sysctl"
  let ?max = "m ''CONFIG_ARCH_MMAP_RND_BITS_MAX''"
  let ?X = "''CONFIG_ARCH_MMAP_RND_BITS''"
  have same: "\<And>k' m'. supplied kconfig = Some k' \<Longrightarrow> snd (parse_kconfig_file fs mode Map.empty k') = Inr m'
      \<Longrightarrow> m' = m"
    using assms by simp
  have a1: "truthy ?max \<Longrightarrow> \<forall>n v. Call_override_expected_value n v \<in> set (fst ?R)
      \<longrightarrow> n = ?X \<and> ?max = Some v"
  proof -
    assume t: "truthy ?max"
    let ?P = "\<lambda>e. \<forall>n v. e = Call_override_expected_value n v \<longrightarrow> n = ?X \<and> ?max = Some v"
    have "all_events ?P ?R"
    proof (rule perform_checking_events)
      fix k' m'
      assume "supplied kconfig = Some k'" and "snd (parse_kconfig_file fs mode Map.empty k') = Inr m'"
        and "truthy (m' ''CONFIG_ARCH_MMAP_RND_BITS_MAX'')"
      then have "m' = m" and "truthy ?max"
        using same by auto
      then show "?P (Call_override_expected_value ?X (the (m' ''CONFIG_ARCH_MMAP_RND_BITS_MAX'')))"
        by (auto simp: truthy_def split: option.splits)
    qed simp_all
    then show ?thesis
      by (blast dest: all_eventsD)
  qed
  have a2: "truthy ?max \<Longrightarrow> Call_perform_checks \<in> set (fst ?R)
      \<Longrightarrow> Call_override_expected_value ?X (the ?max) \<in> set (fst ?R)"
  proof -
    assume t: "truthy ?max" and p: "Call_perform_checks \<in> set (fst ?R)"
    from perform_checking_reaches_evaluation [OF p] obtain cl where cl: "snd ?prep = Inr cl"
      by blast
    from pc_prepare_success [OF cl] obtain cl1 cl2 where
      kc: "snd (pc_kconfig E fs mode kconfig cl1) = Inr cl2"
      and sub: "set (fst (pc_kconfig E fs mode kconfig cl1)) \<subseteq> set (fst ?prep)"
      by blast
    from pc_kconfig_overridden [OF assms t kc] sub
    have "Call_override_expected_value ?X (the ?max) \<in> set (fst ?prep)"
      by blast
    moreover have "set (fst ?prep) \<subseteq> set (fst ?R)"
      unfolding perform_checking_def by (rule bind_events_left)
    ultimately show ?thesis by blast
  qed
  have b1: "\<not> truthy ?max \<Longrightarrow> \<forall>n v. Call_override_expected_value n v \<notin> set (fst ?R)"
  proof -
    assume f: "\<not> truthy ?max"
    let ?P = "\<lambda>e. \<forall>n v. e \<noteq> Call_override_expected_value n v"
    have "all_events ?P ?R"
    proof (rule perform_checking_events)
      fix k' m'
      assume "supplied kconfig = Some k'" and "snd (parse_kconfig_file fs mode Map.empty k') = Inr m'"
        and "truthy (m' ''CONFIG_ARCH_MMAP_RND_BITS_MAX'')"
      with f same have False by auto
      then show "?P (Call_override_expected_value ?X (the (m' ''CONFIG_ARCH_MMAP_RND_BITS_MAX'')))" ..
    qed simp_all
    then show ?thesis
      by (blast dest: all_eventsD)
  qed
  have b2: "\<not> truthy ?max \<Longrightarrow> keeps_names E \<Longrightarrow> \<forall>cl. snd ?prep = Inr cl \<longrightarrow> ?X \<notin> set (map name cl)"
    using pc_prepare_without_check [OF assms] by blast
  have b3: "\<not> truthy ?max \<Longrightarrow> keeps_names E
      \<Longrightarrow> \<forall>opt \<in> set (printed_checks (fst ?R)). name opt \<noteq> ?X"
  proof -
    assume f: "\<not> truthy ?max" and keep: "keeps_names E"
    let ?P = "\<lambda>e. \<forall>opt mo w. e = Table_print opt mo w \<longrightarrow> name opt \<noteq> ?X"
    have "all_events ?P ?R"
    proof (rule perform_checking_events)
      fix cl cl' opt
      assume cl: "snd ?prep = Inr cl" and ev: "perform_checks E cl = Inr cl'" and opt: "opt \<in> set cl'"
      from keep ev have "map name cl' = map name cl"
        by (simp add: keeps_names_def)
      moreover from b2 [OF f keep] cl have "?X \<notin> set (map name cl)"
        by blast
      ultimately have "?X \<notin> set (map name cl')" by simp
      moreover from opt have "name opt \<in> set (map name cl')" by simp
      ultimately have "name opt \<noteq> ?X" by metis
      then show "?P (Table_print opt mode True)"
        by simp
    qed simp_all
    then show ?thesis
      by (blast dest: all_eventsD printed_checks_event)
  qed
  have b4: "\<not> truthy ?max \<Longrightarrow> keeps_names E
      \<Longrightarrow> \<forall>js. Print_json js \<in> set (fst ?R)
          \<longrightarrow> (\<exists>cl. ?X \<notin> set (map name cl) \<and> json_dumps (json_dump E) True cl = Inr js)"
  proof -
    assume f: "\<not> truthy ?max" and keep: "keeps_names E"
    let ?P = "\<lambda>e. \<forall>js. e = Print_json js
        \<longrightarrow> (\<exists>cl. ?X \<notin> set (map name cl) \<and> json_dumps (json_dump E) True cl = Inr js)"
    have "all_events ?P ?R"
    proof (rule perform_checking_events)
      fix cl cl' js
      assume cl: "snd ?prep = Inr cl" and ev: "perform_checks E cl = Inr cl'"
        and js: "json_dumps (json_dump E) True cl' = Inr js"
      from keep ev have "map name cl' = map name cl"
        by (simp add: keeps_names_def)
      moreover from b2 [OF f keep] cl have "?X \<notin> set (map name cl)"
        by blast
      ultimately have "?X \<notin> set (map name cl')" by simp
      with js show "?P (Print_json js)"
        by blast
    qed simp_all
    then show ?thesis
      by (blast dest: all_eventsD)
  qed
  have a3: "truthy ?max \<Longrightarrow> \<forall>cl1. snd (pc_kconfig E fs mode kconfig cl1)
      = (case populate_with_data E cl1 (Options m) ''kconfig'' of
           Inl x \<Rightarrow> Inl x
         | Inr clp \<Rightarrow> override_expected_value E clp ?X (the ?max))"
    using pc_kconfig_applies [OF assms] by blast
  have a4: "truthy ?max \<Longrightarrow> \<forall>cl. snd ?prep = Inr cl \<longrightarrow>
      (\<exists>arch cl0 cl1 clp cl2 cl3.
          snd (pc_detect_arch fs mode kconfig cmdline sysctl
                :: (('a ChecklistObjType_scheme, 'j) event, StrOrNone) run) = Inr arch
        \<and> snd (pc_add_checks E arch kconfig cmdline sysctl) = Inr cl0
        \<and> snd (pc_version E version cl0) = Inr cl1
        \<and> populate_with_data E cl1 (Options m) ''kconfig'' = Inr clp
        \<and> override_expected_value E clp ?X (the ?max) = Inr cl2
        \<and> snd (pc_cmdline E fs mode cmdline cl2) = Inr cl3
        \<and> snd (pc_sysctl E fs mode sysctl cl3) = Inr cl)"
    using pc_prepare_overridden [OF assms] by blast
  have b5: "\<not> truthy ?max \<Longrightarrow> \<forall>cl1. snd (pc_kconfig E fs mode kconfig cl1)
      = (case populate_with_data E cl1 (Options m) ''kconfig'' of
           Inl x \<Rightarrow> Inl x
         | Inr clp \<Rightarrow> Inr (filter (\<lambda>opt. name opt \<noteq> ?X) clp))"
    using pc_kconfig_drops [OF assms] by blast
  have b6: "\<not> truthy ?max \<Longrightarrow> \<forall>cl. snd ?prep = Inr cl \<longrightarrow>
      (\<exists>arch cl0 cl1 clp cl3.
          snd (pc_detect_arch fs mode kconfig cmdline sysctl
                :: (('a ChecklistObjType_scheme, 'j) event, StrOrNone) run) = Inr arch
        \<and> snd (pc_add_checks E arch kconfig cmdline sysctl) = Inr cl0
        \<and> snd (pc_version E version cl0) = Inr cl1
        \<and> populate_with_data E cl1 (Options m) ''kconfig'' = Inr clp
        \<and> snd (pc_cmdline E fs mode cmdline (filter (\<lambda>opt. name opt \<noteq> ?X) clp)) = Inr cl3
        \<and> snd (pc_sysctl E fs mode sysctl cl3) = Inr cl)"
    using pc_prepare_dropped [OF assms] by blast
  have c: "\<forall>opt \<in> set (printed_checks (fst ?R)).
      \<exists>cl cl'. snd ?prep = Inr cl \<and> perform_checks E cl = Inr cl' \<and> opt \<in> set cl'"
    by (blast dest: perform_checking_rows_evaluated)
  have A: "truthy ?max \<longrightarrow>
      (\<forall>n v. Call_override_expected_value n v \<in> set (fst ?R) \<longrightarrow> n = ?X \<and> ?max = Some v)
    \<and> (Call_perform_checks \<in> set (fst ?R)
          \<longrightarrow> Call_override_expected_value ?X (the ?max) \<in> set (fst ?R))
    \<and> (\<forall>cl1. snd (pc_kconfig E fs mode kconfig cl1)
          = (case populate_with_data E cl1 (Options m) ''kconfig'' of
               Inl x \<Rightarrow> Inl x
             | Inr clp \<Rightarrow> override_expected_value E clp ?X (the ?max)))
    \<and> (\<forall>cl. snd ?prep = Inr cl \<longrightarrow>
          (\<exists>arch cl0 cl1 clp cl2 cl3.
              snd (pc_detect_arch fs mode kconfig cmdline sysctl
                    :: (('a ChecklistObjType_scheme, 'j) event, StrOrNone) run) = Inr arch
            \<and> snd (pc_add_checks E arch kconfig cmdline sysctl) = Inr cl0
            \<and> snd (pc_version E version cl0) = Inr cl1
            \<and> populate_with_data E cl1 (Options m) ''kconfig'' = Inr clp
            \<and> override_expected_value E clp ?X (the ?max) = Inr cl2
            \<and> snd (pc_cmdline E fs mode cmdline cl2) = Inr cl3
            \<and> snd (pc_sysctl E fs mode sysctl cl3) = Inr cl))"
  proof
    assume t: "truthy ?max"
    from a2 [OF t] have a2': "Call_perform_checks \<in> set (fst ?R)
        \<longrightarrow> Call_override_expected_value ?X (the ?max) \<in> set (fst ?R)"
      by blast
    from a1 [OF t] a2' a3 [OF t] a4 [OF t] show
      "(\<forall>n v. Call_override_expected_value n v \<in> set (fst ?R) \<longrightarrow> n = ?X \<and> ?max = Some v)
    \<and> (Call_perform_checks \<in> set (fst ?R)
          \<longrightarrow> Call_override_expected_value ?X (the ?max) \<in> set (fst ?R))
    \<and> (\<forall>cl1. snd (pc_kconfig E fs mode kconfig cl1)
          = (case populate_with_data E cl1 (Options m) ''kconfig'' of
               Inl x \<Rightarrow> Inl x
             | Inr clp \<Rightarrow> override_expected_value E clp ?X (the ?max)))
    \<and> (\<forall>cl. snd ?prep = Inr cl \<longrightarrow>
          (\<exists>arch cl0 cl1 clp cl2 cl3.
              snd (pc_detect_arch fs mode kconfig cmdline sysctl
                    :: (('a ChecklistObjType_scheme, 'j) event, StrOrNone) run) = Inr arch
            \<and> snd (pc_add_checks E arch kconfig cmdline sysctl) = Inr cl0
            \<and> snd (pc_version E version cl0) = Inr cl1
            \<and> populate_with_data E cl1 (Options m) ''kconfig'' = Inr clp
            \<and> override_expected_value E clp ?X (the ?max) = Inr cl2
            \<and> snd (pc_cmdline E fs mode cmdline cl2) = Inr cl3
            \<and> snd (pc_sysctl E fs mode sysctl cl3) = Inr cl))"
      by (intro conjI) assumption+
  qed
  have B: "\<not> truthy ?max \<longrightarrow>
      (\<forall>n v. Call_override_expected_value n v \<notin> set (fst ?R))
    \<and> (\<forall>cl1. snd (pc_kconfig E fs mode kconfig cl1)
          = (case populate_with_data E cl1 (Options m) ''kconfig'' of
               Inl x \<Rightarrow> Inl x
             | Inr clp \<Rightarrow> Inr (filter (\<lambda>opt. name opt \<noteq> ?X) clp)))
    \<and> (\<forall>cl. snd ?prep = Inr cl \<longrightarrow>
          (\<exists>arch cl0 cl1 clp cl3.
              snd (pc_detect_arch fs mode kconfig cmdline sysctl
                    :: (('a ChecklistObjType_scheme, 'j) event, StrOrNone) run) = Inr arch
            \<and> snd (pc_add_checks E arch kconfig cmdline sysctl) = Inr cl0
            \<and> snd (pc_version E version cl0) = Inr cl1
            \<and> populate_with_data E cl1 (Options m) ''kconfig'' = Inr clp
            \<and> snd (pc_cmdline E fs mode cmdline (filter (\<lambda>opt. name opt \<noteq> ?X) clp)) = Inr cl3
            \<and> snd (pc_sysctl E fs mode sysctl cl3) = Inr cl))
    \<and> (keeps_names E \<longrightarrow>
          (\<forall>cl. snd ?prep = Inr cl \<longrightarrow> ?X \<notin> set (map name cl))
        \<and> (\<forall>opt \<in> set (printed_checks (fst ?R)). name opt \<noteq> ?X)
        \<and> (\<forall>js. Print_json js \<in> set (fst ?R)
              \<longrightarrow> (\<exists>cl. ?X \<notin> set (map name cl) \<and> json_dumps (json_dump E) True cl = Inr js)))"
  proof
    assume f: "\<not> truthy ?max"
    have k: "keeps_names E \<longrightarrow>
          (\<forall>cl. snd ?prep = Inr cl \<longrightarrow> ?X \<notin> set (map name cl))
        \<and> (\<forall>opt \<in> set (printed_checks (fst ?R)). name opt \<noteq> ?X)
        \<and> (\<forall>js. Print_json js \<in> set (fst ?R)
              \<longrightarrow> (\<exists>cl. ?X \<notin> set (map name cl) \<and> json_dumps (json_dump E) True cl = Inr js))"
      using b2 [OF f] b3 [OF f] b4 [OF f] by blast
    from b1 [OF f] b5 [OF f] b6 [OF f] k show
      "(\<forall>n v. Call_override_expected_value n v \<notin> set (fst ?R))
    \<and> (\<forall>cl1. snd (pc_kconfig E fs mode kconfig cl1)
          = (case populate_with_data E cl1 (Options m) ''kconfig'' of
               Inl x \<Rightarrow> Inl x
             | Inr clp \<Rightarrow> Inr (filter (\<lambda>opt. name opt \<noteq> ?X) clp)))
    \<and> (\<forall>cl. snd ?prep = Inr cl \<longrightarrow>
          (\<exists>arch cl0 cl1 clp cl3.
              snd (pc_detect_arch fs mode kconfig cmdline sysctl
                    :: (('a ChecklistObjType_scheme, 'j) event, StrOrNone) run) = Inr arch
            \<and> snd (pc_add_checks E arch kconfig cmdline sysctl) = Inr cl0
            \<and> snd (pc_version E version cl0) = Inr cl1
            \<and> populate_with_data E cl1 (Options m) ''kconfig'' = Inr clp
            \<and> snd (pc_cmdline E fs mode cmdline (filter (\<lambda>opt. name opt \<noteq> ?X) clp)) = Inr cl3
            \<and> snd (pc_sysctl E fs mode sysctl cl3) = Inr cl))
    \<and> (keeps_names E \<longrightarrow>
          (\<forall>cl. snd ?prep = Inr cl \<longrightarrow> ?X \<notin> set (map name cl))
        \<and> (\<forall>opt \<in> set (printed_checks (fst ?R)). name opt \<noteq> ?X)
        \<and> (\<forall>js. Print_json js \<in> set (fst ?R)
              \<longrightarrow> (\<exists>cl. ?X \<notin> set (map name cl) \<and> json_dumps (json_dump E) True cl = Inr js)))"
      by (intro conjI) assumption+
  qed
  from A B c show ?thesis
    by (intro conjI)
qed

lemma example_config_max:
  "(case snd (parse_kconfig_file run_example None Map.empty ''config'') of
      Inl e \<Rightarrow> None
    | Inr m \<Rightarrow> Some (m ''CONFIG_ARCH_MMAP_RND_BITS_MAX'')) = Some (Some ''32'')"
  by code_simp

lemma example_nomax_max:
  "(case snd (parse_kconfig_file run_example None Map.empty ''nomax'') of
      Inl e \<Rightarrow> None
    | Inr m \<Rightarrow> Some (m ''CONFIG_ARCH_MMAP_RND_BITS_MAX'')) = Some None"
  by code_simp

lemma example_engine_keeps_names: "keeps_names example_engine"
  by (simp add: keeps_names_def example_engine_def comp_def)

lemma example_refined_checklist:
  "snd (pc_prepare refining_engine run_example None None (Some ''config'') None None)
     = Inr [check_mmap_28\<lparr>expected := ''32''\<rparr>]"
  by code_simp

theorem perform_checking_mmap_rnd_bits_witness:
  "Call_override_expected_value ''CONFIG_ARCH_MMAP_RND_BITS'' ''32''
     \<in> set (fst (perform_checking example_engine run_example None (Some [5, 10, 0])
                   (Some ''config'') None (Some ''sysctl'')))
   \<and> (\<exists>clp cl2 cl3.
          override_expected_value refining_engine clp ''CONFIG_ARCH_MMAP_RND_BITS'' ''32'' = Inr cl2
        \<and> snd (pc_cmdline refining_engine run_example None None cl2) = Inr cl3
        \<and> snd (pc_sysctl refining_engine run_example None None cl3)
            = Inr [check_mmap_28\<lparr>expected := ''32''\<rparr>])
   \<and> snd (pc_prepare refining_engine run_example None None (Some ''config'') None None)
        = Inr [check_mmap_28\<lparr>expected := ''32''\<rparr>]
   \<and> (\<forall>n v. Call_override_expected_value n v
         \<notin> set (fst (perform_checking example_engine run_example None (Some [5, 10, 0])
                       (Some ''nomax'') None None)))
   \<and> check_mmap\<lparr>result := Some ''OK''\<rparr>
         \<notin> set (printed_checks (fst (perform_checking example_engine run_example None (Some [5, 10, 0])
                                      (Some ''nomax'') None None)))"
proof -
  let ?run1 = "perform_checking example_engine run_example None (Some [5, 10, 0])
                   (Some ''config'') None (Some ''sysctl'')"
  let ?run2 = "perform_checking example_engine run_example None (Some [5, 10, 0])
                   (Some ''nomax'') None None"
  have s1: "supplied (Some ''config'') = Some ''config''"
    and s2: "supplied (Some ''nomax'') = Some ''nomax''"
    by (simp_all add: supplied_def truthy_def)
  from example_config_max obtain m1 where
    p1: "snd (parse_kconfig_file run_example None Map.empty ''config'') = Inr m1"
    and v1: "m1 ''CONFIG_ARCH_MMAP_RND_BITS_MAX'' = Some ''32''"
    by (auto split: sum.splits)
  from example_nomax_max obtain m2 where
    p2: "snd (parse_kconfig_file run_example None Map.empty ''nomax'') = Inr m2"
    and v2: "m2 ''CONFIG_ARCH_MMAP_RND_BITS_MAX'' = None"
    by (auto split: sum.splits)
  have t1: "truthy (m1 ''CONFIG_ARCH_MMAP_RND_BITS_MAX'')"
    by (simp add: v1 truthy_def)
  have t2: "\<not> truthy (m2 ''CONFIG_ARCH_MMAP_RND_BITS_MAX'')"
    by (simp add: v2 truthy_def)
  have "Call_perform_checks \<in> set (engine_calls (fst ?run1))"
    by (simp add: example_run_calls)
  then have reached: "Call_perform_checks \<in> set (fst ?run1)"
    by (rule engine_calls_subset)
  from perform_checking_mmap_rnd_bits [OF s1 p1, of example_engine "Some [5, 10, 0]" None "Some ''sysctl''"]
    t1 reached
  have "Call_override_expected_value ''CONFIG_ARCH_MMAP_RND_BITS''
      (the (m1 ''CONFIG_ARCH_MMAP_RND_BITS_MAX'')) \<in> set (fst ?run1)"
    by blast
  then have a: "Call_override_expected_value ''CONFIG_ARCH_MMAP_RND_BITS'' ''32'' \<in> set (fst ?run1)"
    by (simp add: v1)
  from perform_checking_mmap_rnd_bits [OF s2 p2, of example_engine "Some [5, 10, 0]" None None]
    t2 example_engine_keeps_names
  have b: "\<forall>n v. Call_override_expected_value n v \<notin> set (fst ?run2)"
    and c: "\<forall>opt \<in> set (printed_checks (fst ?run2)). name opt \<noteq> ''CONFIG_ARCH_MMAP_RND_BITS''"
    by blast+
  have "name (check_mmap\<lparr>result := Some ''OK''\<rparr>) = ''CONFIG_ARCH_MMAP_RND_BITS''"
    by (simp add: check_mmap_def)
  with c have d: "check_mmap\<lparr>result := Some ''OK''\<rparr> \<notin> set (printed_checks (fst ?run2))"
    by blast
  from perform_checking_mmap_rnd_bits [OF s1 p1, of refining_engine None None None] t1
    example_refined_checklist
  have "\<exists>arch cl0 cl1 clp cl2 cl3.
      snd (pc_detect_arch run_example None (Some ''config'') None None
            :: ((RefinedCheck, string) event, StrOrNone) run) = Inr arch
    \<and> snd (pc_add_checks refining_engine arch (Some ''config'') None None) = Inr cl0
    \<and> snd (pc_version refining_engine None cl0) = Inr cl1
    \<and> populate_with_data refining_engine cl1 (Options m1) ''kconfig'' = Inr clp
    \<and> override_expected_value refining_engine clp ''CONFIG_ARCH_MMAP_RND_BITS''
          (the (m1 ''CONFIG_ARCH_MMAP_RND_BITS_MAX'')) = Inr cl2
    \<and> snd (pc_cmdline refining_engine run_example None None cl2) = Inr cl3
    \<and> snd (pc_sysctl refining_engine run_example None None cl3)
        = Inr [check_mmap_28\<lparr>expected := ''32''\<rparr>]"
    by blast
  then have e: "\<exists>clp cl2 cl3.
      override_expected_value refining_engine clp ''CONFIG_ARCH_MMAP_RND_BITS'' ''32'' = Inr cl2
    \<and> snd (pc_cmdline refining_engine run_example None None cl2) = Inr cl3
    \<and> snd (pc_sysctl refining_engine run_example None None cl3)
        = Inr [check_mmap_28\<lparr>expected := ''32''\<rparr>]"
    by (auto simp: v1)
  from a e example_refined_checklist b d show ?thesis
    by (intro conjI)
qed

section \<open>The report follows the checklist\<close>


lemma printed_checks_none: "list_all (\<lambda>e. \<not> is_table_print e) es \<Longrightarrow> printed_checks es = []"
proof (induction es)
  case Nil
  show ?case by simp
next
  case (Cons e es)
  then show ?case by (cases e) simp_all
qed

lemma all_events_not_printed:
  "all_events (\<lambda>e. \<not> is_table_print e) r \<Longrightarrow> printed_checks (fst r) = []"
  by (simp add: all_events_def printed_checks_none)

lemma print_checklist_plain:
  fixes dump :: "'a ChecklistObjType_scheme \<Rightarrow> bool \<Rightarrow> exn + 'j"
  assumes "mode \<noteq> Some ''json''"
  shows "printed_checks (fst (print_checklist dump mode cl False)) = cl"
proof -
  let ?rows = "table_rows mode False 91 cl 0 0 :: (('a ChecklistObjType_scheme, 'j) event, nat \<times> nat) run"
  have rows: "printed_checks (fst ?rows) = cl \<and> snd ?rows = Inr (0, 0)"
    by (rule table_rows_plain)
  have "fst (print_checklist dump mode cl False)
      = table_head False 91 @ fst ?rows @ [Stdout [newline]]"
    using assms rows
    by (simp add: print_checklist_def table_head_def fst_bind_cases)
  with rows show ?thesis
    by (simp add: printed_checks_append printed_checks_table_head)
qed

lemma print_checklist_json:
  fixes dump :: "'a ChecklistObjType_scheme \<Rightarrow> bool \<Rightarrow> exn + 'j"
  shows "fst (print_checklist dump (Some ''json'') cl with_results)
    = (case json_dumps dump with_results cl of Inl e \<Rightarrow> [] | Inr js \<Rightarrow> [Print_json js])"
  by (simp add: print_checklist_def fst_bind_cases split: sum.splits)

lemma json_dumps_order:
  assumes "json_dumps dump with_results cl = Inr js"
  shows "length js = length cl \<and> (\<forall>i < length cl. dump (cl ! i) with_results = Inr (js ! i))"
  using assms
proof (induction cl arbitrary: js)
  case Nil
  then show ?case by simp
next
  case (Cons opt rest)
  from Cons.prems obtain j js' where j: "dump opt with_results = Inr j"
    and r: "json_dumps dump with_results rest = Inr js'" and js: "js = j # js'"
    by (auto split: sum.splits)
  from Cons.IH [OF r] j js show ?case
    by (auto simp: nth_Cons split: nat.splits)
qed

lemma subseq_takeWhile: "subseq (takeWhile P xs) xs"
  by (induction xs) auto

lemma print_checklist_subseq:
  fixes dump :: "'a ChecklistObjType_scheme \<Rightarrow> bool \<Rightarrow> exn + 'j"
  shows "subseq (printed_checks (fst (print_checklist dump mode cl with_results))) cl"
proof (cases "mode = Some ''json''")
  case True
  then show ?thesis
    by (simp add: print_checklist_json split: sum.splits)
next
  case False
  show ?thesis
  proof (cases with_results)
    case True
    have "subseq (filter (shown mode) (takeWhile has_verdict cl)) (takeWhile has_verdict cl)"
      by simp
    then have "subseq (filter (shown mode) (takeWhile has_verdict cl)) cl"
      using subseq_takeWhile by (rule subseq_order.trans)
    with True False show ?thesis
      by (simp add: print_checklist_printed)
  next
    case wr: False
    with False show ?thesis
      by (simp add: print_checklist_plain)
  qed
qed

lemma pc_report_printed:
  fixes E :: "('a ChecklistObjType_scheme, 'j) engine"
  assumes "keeps_names E"
  shows "subseq (map name (printed_checks (fst (pc_report E mode kconfig cmdline sysctl cl)))) (map name cl)"
proof (cases "perform_checks E cl")
  case (Inl x)
  then show ?thesis
    by (simp add: pc_report_def fst_bind_cases)
next
  case (Inr cl')
  let ?p = "print_checklist (json_dump E) mode cl' True"
  from Inr have "printed_checks (fst (pc_report E mode kconfig cmdline sysctl cl)) = printed_checks (fst ?p)"
    by (simp add: pc_report_def fst_bind_cases printed_checks_append split: sum.splits)
  moreover have "subseq (map name (printed_checks (fst ?p))) (map name cl')"
    by (rule subseq_map) (rule print_checklist_subseq)
  moreover from assms Inr have "map name cl' = map name cl"
    by (simp add: keeps_names_def)
  ultimately show ?thesis by simp
qed

lemma pc_prepare_names:
  fixes E :: "('a ChecklistObjType_scheme, 'j) engine"
  assumes "keeps_names E" and "snd (pc_prepare E fs mode version kconfig cmdline sysctl) = Inr cl"
    and "snd (pc_detect_arch fs mode kconfig cmdline sysctl
            :: (('a ChecklistObjType_scheme, 'j) event, StrOrNone) run) = Inr arch"
    and "snd (pc_add_checks E arch kconfig cmdline sysctl) = Inr cl0"
  shows "subseq (map name cl) (map name cl0)"
proof -
  from pc_prepare_success [OF assms(2)] assms(3,4) obtain cl1 cl2 cl3 where
    ve: "snd (pc_version E version cl0) = Inr cl1"
    and kc: "snd (pc_kconfig E fs mode kconfig cl1) = Inr cl2"
    and cm: "snd (pc_cmdline E fs mode cmdline cl2) = Inr cl3"
    and sy: "snd (pc_sysctl E fs mode sysctl cl3) = Inr cl"
    by auto
  from assms(1) ve have n1: "map name cl1 = map name cl0"
    by (rule pc_version_names)
  from pc_kconfig_names [OF assms(1) kc] have "subseq (map name cl2) (map name cl1)"
    by auto
  moreover from assms(1) cm have "map name cl3 = map name cl2"
    by (rule pc_cmdline_names)
  moreover from assms(1) sy have "map name cl = map name cl3"
    by (rule pc_sysctl_names)
  ultimately show ?thesis
    using n1 by simp
qed

lemma perform_checking_printed:
  fixes E :: "('a ChecklistObjType_scheme, 'j) engine"
  shows "printed_checks (fst (perform_checking E fs mode version kconfig cmdline sysctl))
    = (case snd (pc_prepare E fs mode version kconfig cmdline sysctl) of
         Inl x \<Rightarrow> []
       | Inr cl \<Rightarrow> printed_checks (fst (pc_report E mode kconfig cmdline sysctl cl)))"
proof -
  have "all_events (\<lambda>e. \<not> is_table_print e) (pc_prepare E fs mode version kconfig cmdline sysctl)"
    by (rule pc_prepare_events) simp_all
  then have "printed_checks (fst (pc_prepare E fs mode version kconfig cmdline sysctl)) = []"
    by (rule all_events_not_printed)
  then show ?thesis
    by (simp add: perform_checking_def fst_bind_cases printed_checks_append split: sum.splits)
qed

lemma perform_checking_report_order:
  fixes E :: "('a ChecklistObjType_scheme, 'j) engine"
  assumes "keeps_names E"
    and "snd (pc_detect_arch fs mode kconfig cmdline sysctl
            :: (('a ChecklistObjType_scheme, 'j) event, StrOrNone) run) = Inr arch"
    and "snd (pc_add_checks E arch kconfig cmdline sysctl) = Inr cl0"
  shows "subseq (map name (printed_checks (fst (perform_checking E fs mode version kconfig cmdline sysctl))))
    (map name cl0)"
proof (cases "snd (pc_prepare E fs mode version kconfig cmdline sysctl)")
  case (Inl x)
  then show ?thesis
    by (simp add: perform_checking_printed)
next
  case (Inr cl)
  have "subseq (map name (printed_checks (fst (pc_report E mode kconfig cmdline sysctl cl)))) (map name cl)"
    using assms(1) by (rule pc_report_printed)
  moreover have "subseq (map name cl) (map name cl0)"
    using assms(1) Inr assms(2,3) by (rule pc_prepare_names)
  ultimately have "subseq (map name (printed_checks (fst (pc_report E mode kconfig cmdline sysctl cl))))
      (map name cl0)"
    by (rule subseq_order.trans)
  with Inr show ?thesis
    by (simp add: perform_checking_printed)
qed

lemma print_checklist_json_list:
  fixes dump :: "'a ChecklistObjType_scheme \<Rightarrow> bool \<Rightarrow> exn + 'j"
  assumes "Print_json js \<in> set (fst (print_checklist dump mode cl with_results))"
  shows "json_dumps dump with_results cl = Inr js"
proof -
  have "all_events (\<lambda>e. \<forall>js. e = Print_json js \<longrightarrow> json_dumps dump with_results cl = Inr js)
      (print_checklist dump mode cl with_results)"
    by (rule print_checklist_events) simp_all
  with assms show ?thesis
    by (blast dest: all_eventsD)
qed

text \<open>
  C8. The report follows the checklist. The checks that \<^verbatim>\<open>print_checklist\<close> prints are a
  subsequence of the checklist: with results, the checks that the mode shows, in the
  order of the list, up to the first check without a verdict; without results, the whole
  list; in mode \<^verbatim>\<open>json\<close>, the dumps of the checks of the list, one by one in its order.
  Where the driver removes the checks named \<^verbatim>\<open>CONFIG_ARCH_MMAP_RND_BITS\<close>, the checklist
  that it goes on with is what the Kconfig population returned without these checks, in
  the same order. And in a run with an engine that keeps the checks it is given, the
  names of the checks printed are a subsequence of the names of the checklist that the
  catalog built.
\<close>

theorem report_follows_checklist:
  fixes E :: "('a ChecklistObjType_scheme, 'j) engine"
    and dump :: "'a ChecklistObjType_scheme \<Rightarrow> bool \<Rightarrow> exn + 'j"
  shows "subseq (printed_checks (fst (print_checklist dump mode checklist with_results))) checklist
    \<and> (mode \<noteq> Some ''json'' \<longrightarrow>
          printed_checks (fst (print_checklist dump mode checklist True))
            = filter (shown mode) (takeWhile has_verdict checklist)
        \<and> printed_checks (fst (print_checklist dump mode checklist False)) = checklist)
    \<and> (\<forall>js. Print_json js \<in> set (fst (print_checklist dump mode checklist with_results)) \<longrightarrow>
          json_dumps dump with_results checklist = Inr js \<and> length js = length checklist
        \<and> (\<forall>i < length checklist. dump (checklist ! i) with_results = Inr (js ! i)))
    \<and> (\<forall>k m cl cl'. supplied kconfig = Some k \<and> snd (parse_kconfig_file fs mode Map.empty k) = Inr m
          \<and> \<not> truthy (m ''CONFIG_ARCH_MMAP_RND_BITS_MAX'')
          \<and> snd (pc_kconfig E fs mode kconfig cl) = Inr cl' \<longrightarrow>
          (\<exists>cl1. populate_with_data E cl (Options m) ''kconfig'' = Inr cl1
             \<and> cl' = filter (\<lambda>opt. name opt \<noteq> ''CONFIG_ARCH_MMAP_RND_BITS'') cl1
             \<and> subseq cl' cl1))
    \<and> (keeps_names E \<longrightarrow>
          (\<forall>arch cl0. snd (pc_detect_arch fs mode kconfig cmdline sysctl
                            :: (('a ChecklistObjType_scheme, 'j) event, StrOrNone) run) = Inr arch
             \<and> snd (pc_add_checks E arch kconfig cmdline sysctl) = Inr cl0 \<longrightarrow>
             subseq (map name (printed_checks (fst (perform_checking E fs mode version kconfig cmdline sysctl))))
               (map name cl0)))"
proof -
  have a: "subseq (printed_checks (fst (print_checklist dump mode checklist with_results))) checklist"
    by (rule print_checklist_subseq)
  have b: "mode \<noteq> Some ''json'' \<longrightarrow>
      printed_checks (fst (print_checklist dump mode checklist True))
        = filter (shown mode) (takeWhile has_verdict checklist)
      \<and> printed_checks (fst (print_checklist dump mode checklist False)) = checklist"
    by (simp add: print_checklist_printed print_checklist_plain)
  have c: "\<forall>js. Print_json js \<in> set (fst (print_checklist dump mode checklist with_results)) \<longrightarrow>
      json_dumps dump with_results checklist = Inr js \<and> length js = length checklist
      \<and> (\<forall>i < length checklist. dump (checklist ! i) with_results = Inr (js ! i))"
    using json_dumps_order [of dump with_results checklist]
    by (blast dest: print_checklist_json_list)
  have d: "\<forall>k m cl cl'. supplied kconfig = Some k \<and> snd (parse_kconfig_file fs mode Map.empty k) = Inr m
      \<and> \<not> truthy (m ''CONFIG_ARCH_MMAP_RND_BITS_MAX'')
      \<and> snd (pc_kconfig E fs mode kconfig cl) = Inr cl' \<longrightarrow>
      (\<exists>cl1. populate_with_data E cl (Options m) ''kconfig'' = Inr cl1
         \<and> cl' = filter (\<lambda>opt. name opt \<noteq> ''CONFIG_ARCH_MMAP_RND_BITS'') cl1
         \<and> subseq cl' cl1)"
  proof (intro allI impI, elim conjE)
    fix k m cl cl'
    assume "supplied kconfig = Some k" and "snd (parse_kconfig_file fs mode Map.empty k) = Inr m"
      and "\<not> truthy (m ''CONFIG_ARCH_MMAP_RND_BITS_MAX'')"
      and "snd (pc_kconfig E fs mode kconfig cl) = Inr cl'"
    then obtain cl1 where "populate_with_data E cl (Options m) ''kconfig'' = Inr cl1"
      and "cl' = filter (\<lambda>opt. name opt \<noteq> ''CONFIG_ARCH_MMAP_RND_BITS'') cl1"
      by (blast dest: pc_kconfig_removed)
    then show "\<exists>cl1. populate_with_data E cl (Options m) ''kconfig'' = Inr cl1
         \<and> cl' = filter (\<lambda>opt. name opt \<noteq> ''CONFIG_ARCH_MMAP_RND_BITS'') cl1
         \<and> subseq cl' cl1"
      by auto
  qed
  have e: "keeps_names E \<longrightarrow>
      (\<forall>arch cl0. snd (pc_detect_arch fs mode kconfig cmdline sysctl
                        :: (('a ChecklistObjType_scheme, 'j) event, StrOrNone) run) = Inr arch
         \<and> snd (pc_add_checks E arch kconfig cmdline sysctl) = Inr cl0 \<longrightarrow>
         subseq (map name (printed_checks (fst (perform_checking E fs mode version kconfig cmdline sysctl))))
           (map name cl0))"
    by (blast intro: perform_checking_report_order)
  from a b c d e show ?thesis
    by (intro conjI)
qed

lemma example_nomax_checklist:
  "snd (pc_detect_arch run_example None (Some ''nomax'') None None
         :: ((ChecklistObjType, string) event, StrOrNone) run) = Inr (Some ''X86_64'')
   \<and> snd (pc_add_checks example_engine (Some ''X86_64'') (Some ''nomax'') None None)
       = Inr [check_stackprotector, check_mmap]"
  by code_simp

theorem report_follows_checklist_witness:
  "printed_checks (fst (print_checklist example_dump None
       [check_ok, check_fail, check_unevaluated, check_ok] True)) = [check_ok, check_fail]
   \<and> printed_checks (fst (print_checklist example_dump None
       [check_ok, check_fail, check_unevaluated, check_ok] False))
       = [check_ok, check_fail, check_unevaluated, check_ok]
   \<and> json_dumps example_dump True [check_fail, check_ok] = Inr [''CONFIG_SLUB_DEBUG'', ''CONFIG_BUG'']
   \<and> snd (pc_kconfig example_engine run_example None (Some ''nomax'')
            [check_stackprotector, check_mmap, check_kptr]) = Inr [check_stackprotector, check_kptr]
   \<and> subseq [check_stackprotector, check_kptr] [check_stackprotector, check_mmap, check_kptr]
   \<and> subseq (map name (printed_checks (fst (perform_checking example_engine run_example None None
                 (Some ''nomax'') None None))))
        [''CONFIG_STACKPROTECTOR'', ''CONFIG_ARCH_MMAP_RND_BITS'']"
proof -
  let ?cl = "[check_ok, check_fail, check_unevaluated, check_ok]"
  let ?cl1 = "[check_stackprotector, check_mmap, check_kptr]"
  let ?run = "perform_checking example_engine run_example None None (Some ''nomax'') None None"
  note plain = report_follows_checklist [where dump = example_dump and mode = None and checklist = ?cl
      and with_results = True and E = example_engine and fs = run_example
      and kconfig = "Some ''nomax''" and version = None and cmdline = None and sysctl = None]
  note json = report_follows_checklist [where dump = example_dump and mode = "Some ''json''"
      and checklist = "[check_fail, check_ok]"
      and with_results = True and E = example_engine and fs = run_example
      and kconfig = "Some ''nomax''" and version = None and cmdline = None and sysctl = None]
  have m: "None \<noteq> Some ''json''" by simp
  have s: "supplied (Some ''nomax'') = Some ''nomax''"
    by (simp add: supplied_def truthy_def)
  from example_nomax_max obtain m2 where
    p: "snd (parse_kconfig_file run_example None Map.empty ''nomax'') = Inr m2"
    and v: "m2 ''CONFIG_ARCH_MMAP_RND_BITS_MAX'' = None"
    by (auto split: sum.splits)
  have t: "\<not> truthy (m2 ''CONFIG_ARCH_MMAP_RND_BITS_MAX'')"
    by (simp add: v truthy_def)
  have pop: "\<And>cl d tag. populate_with_data example_engine cl d tag = Inr cl"
    by (simp add: example_engine_def)
  have sel: "filter (shown None) (takeWhile has_verdict ?cl) = [check_ok, check_fail]"
    by (simp add: shown_def verdict_defs check_ok_def check_fail_def check_unevaluated_def)
  from plain m have "printed_checks (fst (print_checklist example_dump None ?cl True))
        = filter (shown None) (takeWhile has_verdict ?cl)"
    and b: "printed_checks (fst (print_checklist example_dump None ?cl False)) = ?cl"
    by blast+
  then have a: "printed_checks (fst (print_checklist example_dump None ?cl True)) = [check_ok, check_fail]"
    by (simp only: sel)
  have "Print_json [''CONFIG_SLUB_DEBUG'', ''CONFIG_BUG'']
      \<in> set (fst (print_checklist example_dump (Some ''json'') [check_fail, check_ok] True))"
    by (simp add: print_checklist_def call_def bind_def emit_def example_dump_def
        check_ok_def check_fail_def)
  with json have c: "json_dumps example_dump True [check_fail, check_ok]
      = Inr [''CONFIG_SLUB_DEBUG'', ''CONFIG_BUG'']"
    by blast
  have names: "name check_stackprotector \<noteq> ''CONFIG_ARCH_MMAP_RND_BITS''"
    "name check_mmap = ''CONFIG_ARCH_MMAP_RND_BITS''"
    "name check_kptr \<noteq> ''CONFIG_ARCH_MMAP_RND_BITS''"
    by (simp_all add: check_stackprotector_def check_mmap_def check_kptr_def)
  have d: "snd (pc_kconfig example_engine run_example None (Some ''nomax'') ?cl1)
      = Inr [check_stackprotector, check_kptr]"
    by (simp add: pc_kconfig_drops [OF s p t] pop names)
  with plain s p t obtain cl1 where "populate_with_data example_engine ?cl1 (Options m2) ''kconfig'' = Inr cl1"
    and "subseq [check_stackprotector, check_kptr] cl1"
    by blast
  then have e: "subseq [check_stackprotector, check_kptr] ?cl1"
    by (simp add: pop)
  from plain example_engine_keeps_names example_nomax_checklist
  have "subseq (map name (printed_checks (fst ?run))) (map name [check_stackprotector, check_mmap])"
    by blast
  then have f: "subseq (map name (printed_checks (fst ?run)))
      [''CONFIG_STACKPROTECTOR'', ''CONFIG_ARCH_MMAP_RND_BITS'']"
    by (simp add: check_stackprotector_def check_mmap_def)
  from a b c d e f show ?thesis
    by (intro conjI)
qed

end
